theory Spec2Isabelle
  imports Complex_Main "HOL-Library.AList"
begin

section \<open>Data model of the SCM deformable terrain\<close>

text \<open>
  The development follows \<^verbatim>\<open>src/SCMTerrainOld.cpp\<close> and
  \<^verbatim>\<open>include/chrono_gpu_scm/SCMTerrainOld.h\<close>.

  Conventions of the embedding.
  \<^item> A C++ \<^verbatim>\<open>double\<close> is a \<^typ>\<open>real\<close>: arithmetic is exact, there is no rounding,
    no infinity and no NaN.
  \<^item> A C++ \<^verbatim>\<open>int\<close> is an unbounded \<^typ>\<open>int\<close>; grid indices stay far from the
    limits of a 32-bit integer.
  \<^item> \<^verbatim>\<open>std::unordered_map\<close> is an association list with distinct keys
    (\<^const>\<open>map_of\<close> looks up, \<^const>\<open>AList.update\<close> stores); the order of the list stands
    for the iteration order of the container.
  \<^item> \<^verbatim>\<open>unordered_map::at\<close> on a missing key throws; a function that may throw returns an
    \<^typ>\<open>'a option\<close> and \<^const>\<open>None\<close> is the exception.
  \<^item> Code of the Chrono library that is not part of the sources (frames, bodies, the
    collision system, the 2D convex hull, \<^verbatim>\<open>std::pow\<close>) is a parameter.
\<close>

subsection \<open>Vectors\<close>

datatype ChVector3d = ChVector3d (vx: real) (vy: real) (vz: real)

type_synonym ChVector2i = "int \<times> int"

type_synonym ChVector2d = "real \<times> real"

definition vadd :: "ChVector3d \<Rightarrow> ChVector3d \<Rightarrow> ChVector3d" where
  "vadd a b = ChVector3d (vx a + vx b) (vy a + vy b) (vz a + vz b)"

definition vsub :: "ChVector3d \<Rightarrow> ChVector3d \<Rightarrow> ChVector3d" where
  "vsub a b = ChVector3d (vx a - vx b) (vy a - vy b) (vz a - vz b)"

definition vscale :: "ChVector3d \<Rightarrow> real \<Rightarrow> ChVector3d" where
  "vscale a k = ChVector3d (vx a * k) (vy a * k) (vz a * k)"

definition vneg :: "ChVector3d \<Rightarrow> ChVector3d" where
  "vneg a = ChVector3d (- vx a) (- vy a) (- vz a)"

definition Vdot :: "ChVector3d \<Rightarrow> ChVector3d \<Rightarrow> real" where
  "Vdot a b = vx a * vx b + vy a * vy b + vz a * vz b"

definition Vcross :: "ChVector3d \<Rightarrow> ChVector3d \<Rightarrow> ChVector3d" where
  "Vcross a b = ChVector3d (vy a * vz b - vz a * vy b)
                           (vz a * vx b - vx a * vz b)
                           (vx a * vy b - vy a * vx b)"

definition VNULL :: ChVector3d where
  "VNULL = ChVector3d 0 0 0"

definition cell_add :: "ChVector2i \<Rightarrow> ChVector2i \<Rightarrow> ChVector2i" where
  "cell_add a b = (fst a + fst b, snd a + snd b)"

definition cell_sub :: "ChVector2i \<Rightarrow> ChVector2i \<Rightarrow> ChVector2i" where
  "cell_sub a b = (fst a - fst b, snd a - snd b)"

text \<open>The constant \<^verbatim>\<open>CH_DEG_TO_RAD\<close> of the Chrono library.\<close>

definition CH_DEG_TO_RAD :: real where
  "CH_DEG_TO_RAD = pi / 180"

subsection \<open>Node records\<close>

record NodeRecord =
  level_initial :: real
  level :: real
  hit_level :: real
  normal :: ChVector3d
  sinkage :: real
  sinkage_plastic :: real
  sinkage_elastic :: real
  sigma :: real
  sigma_yield :: real
  kshear :: real
  tau :: real
  erosion :: bool
  massremainder :: real
  step_plastic_flow :: real

text \<open>The constructor \<^verbatim>\<open>NodeRecord(init_level, level, n)\<close>.\<close>

definition NodeRecord_new :: "real \<Rightarrow> real \<Rightarrow> ChVector3d \<Rightarrow> NodeRecord" where
  "NodeRecord_new init_level lvl n =
     \<lparr> level_initial = init_level,
       level = lvl,
       hit_level = 1000000000,
       normal = n,
       sinkage = init_level - lvl,
       sinkage_plastic = 0,
       sinkage_elastic = 0,
       sigma = 0,
       sigma_yield = 0,
       kshear = 0,
       tau = 0,
       erosion = False,
       massremainder = 0,
       step_plastic_flow = 0 \<rparr>"

subsection \<open>Collaborators outside the sources\<close>

datatype PatchType = FLAT | HEIGHT_MAP | TRI_MESH

record ChAABB =
  aabb_min :: ChVector3d
  aabb_max :: ChVector3d

text \<open>
  A coordinate system \<^verbatim>\<open>ChCoordsys<>\<close> is used only through its three transformations
  and the z axis of its rotation.
\<close>

record ChCoordsys =
  TransformPointParentToLocal :: "ChVector3d \<Rightarrow> ChVector3d"
  TransformPointLocalToParent :: "ChVector3d \<Rightarrow> ChVector3d"
  TransformDirectionLocalToParent :: "ChVector3d \<Rightarrow> ChVector3d"
  GetAxisZ :: ChVector3d

record SCMContactableData =
  area_ratio :: real
  cd_Mohr_cohesion :: real
  cd_Mohr_mu :: real
  cd_Janosi_shear :: real

text \<open>
  The run-time type of a contactable, as the chain of \<^verbatim>\<open>dynamic_cast\<close> tests sees it:
  a rigid body, a contact triangle with its three FEA nodes, a loadable surface, or none
  of these. Bodies, nodes and surfaces are named by numbers.
\<close>

datatype ContactableKind =
    IsBody nat
  | IsTriangle nat nat nat
  | IsLoadableUV nat
  | IsOther

record ChContactable =
  kind :: ContactableKind
  GetContactPointSpeed :: "ChVector3d \<Rightarrow> ChVector3d"
  GetUserData :: "SCMContactableData option"
  GetPos :: ChVector3d
  ComputeUVfromP :: "ChVector3d \<Rightarrow> real \<times> real"

record ChConvexHull2D =
  GetArea :: real
  GetPerimeter :: real

text \<open>
  The environment of the loader: the library functions and the services of the host
  system that the code calls.
\<close>

record ext =
  std_pow :: "real \<Rightarrow> real \<Rightarrow> real"
  GetNormalized :: "ChVector3d \<Rightarrow> ChVector3d"
  Normalize :: "ChVector3d \<Rightarrow> ChVector3d"
  IsInverted :: "ChAABB \<Rightarrow> bool"
  ConvexHull2D :: "ChVector2d list \<Rightarrow> ChConvexHull2D"
  RayHit :: "ChVector3d \<Rightarrow> ChVector3d \<Rightarrow> (ChContactable \<times> ChVector3d) option"
  GetStep :: real

subsection \<open>The loader\<close>

record ActiveDomainInfo =
  m_body_ParentToLocal :: "ChVector3d \<Rightarrow> ChVector3d"
  m_center :: ChVector3d
  m_hdims :: ChVector3d
  m_range :: "ChVector2i list"
  m_ooN :: ChVector3d

text \<open>
  The eight values that a \<^verbatim>\<open>SoilParametersCallback\<close> sets. The header requires an
  implementation to set all of them, so the callback is a function from the query
  location to the eight values.
\<close>

record SoilCallbackValues =
  cb_Bekker_Kphi :: real
  cb_Bekker_Kc :: real
  cb_Bekker_n :: real
  cb_Mohr_cohesion :: real
  cb_Mohr_friction :: real
  cb_Janosi_shear :: real
  cb_elastic_K :: real
  cb_damping_R :: real

text \<open>
  The loads that the loader adds to its load list: a force on a body (applied at the
  position of the body), a torque on a body, a force on an FEA node, a force on a surface.
\<close>

datatype ChLoad =
    ChLoadBodyForce nat ChVector3d
  | ChLoadBodyTorque nat ChVector3d
  | ChLoadNodeXYZ nat ChVector3d
  | ChLoaderForceOnSurface nat ChVector3d

record SCMLoaderOld =
  m_type :: PatchType
  m_frame :: ChCoordsys
  m_Z :: ChVector3d
  m_delta :: real
  m_area :: real
  m_nx :: int
  m_ny :: int
  m_heights :: "int \<Rightarrow> int \<Rightarrow> real"
  m_base_height :: real
  m_grid_map :: "(ChVector2i \<times> NodeRecord) list"
  m_modified_nodes :: "ChVector2i list"
  m_aabb :: ChAABB
  m_boundary :: bool
  m_active_domains :: "ActiveDomainInfo list"
  m_user_domains :: bool
  m_test_offset_down :: real
  m_test_offset_up :: real
  m_cosim_mode :: bool
  m_Bekker_Kphi :: real
  m_Bekker_Kc :: real
  m_Bekker_n :: real
  m_Mohr_cohesion :: real
  m_Mohr_mu :: real
  m_Janosi_shear :: real
  m_elastic_K :: real
  m_damping_R :: real
  m_soil_fun :: "(ChVector3d \<Rightarrow> SoilCallbackValues) option"
  m_body_forces :: "(nat \<times> ChVector3d \<times> ChVector3d) list"
  m_node_forces :: "(nat \<times> ChVector3d) list"
  load_list :: "ChLoad list"
  m_bulldozing :: bool
  m_flow_factor :: real
  m_erosion_slope :: real
  m_erosion_iterations :: int
  m_erosion_propagations :: int
  m_num_ray_casts :: int
  m_num_ray_hits :: int
  m_num_contact_patches :: int
  m_num_erosion_nodes :: int

text \<open>
  The default frame \<^verbatim>\<open>ChCoordsys<>(VNULL, QUNIT)\<close>: no translation, no rotation.
\<close>

definition identity_frame :: ChCoordsys where
  "identity_frame =
     \<lparr> TransformPointParentToLocal = (\<lambda>v. v),
       TransformPointLocalToParent = (\<lambda>v. v),
       TransformDirectionLocalToParent = (\<lambda>v. v),
       GetAxisZ = ChVector3d 0 0 1 \<rparr>"

text \<open>
  The constructor. The containers start empty. The fields that the constructor leaves
  without a value (the patch type, the grid sizes and spacing, the counters, the
  boundary box) are \<open>FLAT\<close> and \<open>0\<close> here; \<open>Initialize\<close> and the step set them.
\<close>

definition SCMLoaderOld_new :: SCMLoaderOld where
  "SCMLoaderOld_new =
     \<lparr> m_type = FLAT,
       m_frame = identity_frame,
       m_Z = GetAxisZ identity_frame,
       m_delta = 0,
       m_area = 0,
       m_nx = 0,
       m_ny = 0,
       m_heights = (\<lambda>i j. 0),
       m_base_height = - 1000,
       m_grid_map = [],
       m_modified_nodes = [],
       m_aabb = \<lparr>aabb_min = VNULL, aabb_max = VNULL\<rparr>,
       m_boundary = False,
       m_active_domains = [],
       m_user_domains = False,
       m_test_offset_down = 0.5,
       m_test_offset_up = 0.1,
       m_cosim_mode = False,
       m_Bekker_Kphi = 2000000,
       m_Bekker_Kc = 0,
       m_Bekker_n = 1.1,
       m_Mohr_cohesion = 50,
       m_Mohr_mu = tan (20 * CH_DEG_TO_RAD),
       m_Janosi_shear = 0.01,
       m_elastic_K = 50000000,
       m_damping_R = 0,
       m_soil_fun = None,
       m_body_forces = [],
       m_node_forces = [],
       load_list = [],
       m_bulldozing = False,
       m_flow_factor = 1.2,
       m_erosion_slope = tan (40 * CH_DEG_TO_RAD),
       m_erosion_iterations = 3,
       m_erosion_propagations = 10,
       m_num_ray_casts = 0,
       m_num_ray_hits = 0,
       m_num_contact_patches = 0,
       m_num_erosion_nodes = 0 \<rparr>"

section \<open>Configuration\<close>

definition SetReferenceFrame :: "ChCoordsys \<Rightarrow> SCMLoaderOld \<Rightarrow> SCMLoaderOld" where
  "SetReferenceFrame frame s = s\<lparr>m_frame := frame, m_Z := GetAxisZ frame\<rparr>"

definition SetCosimulationMode :: "bool \<Rightarrow> SCMLoaderOld \<Rightarrow> SCMLoaderOld" where
  "SetCosimulationMode val s = s\<lparr>m_cosim_mode := val\<rparr>"

definition SetSoilParameters ::
  "real \<Rightarrow> real \<Rightarrow> real \<Rightarrow> real \<Rightarrow> real \<Rightarrow> real \<Rightarrow> real \<Rightarrow> real \<Rightarrow> SCMLoaderOld \<Rightarrow> SCMLoaderOld"
where
  "SetSoilParameters Bekker_Kphi Bekker_Kc Bekker_n Mohr_cohesion Mohr_friction Janosi_shear
       elastic_K damping_R s =
     s\<lparr> m_Bekker_Kphi := Bekker_Kphi,
        m_Bekker_Kc := Bekker_Kc,
        m_Bekker_n := Bekker_n,
        m_Mohr_cohesion := Mohr_cohesion,
        m_Mohr_mu := tan (Mohr_friction * CH_DEG_TO_RAD),
        m_Janosi_shear := Janosi_shear,
        m_elastic_K := max elastic_K Bekker_Kphi,
        m_damping_R := damping_R \<rparr>"

definition EnableBulldozing :: "bool \<Rightarrow> SCMLoaderOld \<Rightarrow> SCMLoaderOld" where
  "EnableBulldozing val s = s\<lparr>m_bulldozing := val\<rparr>"

definition SetBulldozingParameters ::
  "real \<Rightarrow> real \<Rightarrow> int \<Rightarrow> int \<Rightarrow> SCMLoaderOld \<Rightarrow> SCMLoaderOld"
where
  "SetBulldozingParameters erosion_angle flow_factor erosion_iterations erosion_propagations s =
     s\<lparr> m_flow_factor := flow_factor,
        m_erosion_slope := tan (erosion_angle * CH_DEG_TO_RAD),
        m_erosion_iterations := erosion_iterations,
        m_erosion_propagations := erosion_propagations \<rparr>"

definition SetTestHeight :: "real \<Rightarrow> SCMLoaderOld \<Rightarrow> SCMLoaderOld" where
  "SetTestHeight offset s = s\<lparr>m_test_offset_up := offset\<rparr>"

definition SetBoundary :: "ext \<Rightarrow> ChAABB \<Rightarrow> SCMLoaderOld \<Rightarrow> SCMLoaderOld" where
  "SetBoundary E aabb s =
     (if IsInverted E aabb then s
      else s\<lparr>m_aabb := aabb, m_boundary := True\<rparr>)"

text \<open>
  A user-provided active domain on a body; the body is used through the transformation
  of its reference frame only. The range and \<open>m_ooN\<close> are set at each step.
\<close>

definition AddActiveDomain ::
  "(ChVector3d \<Rightarrow> ChVector3d) \<Rightarrow> ChVector3d \<Rightarrow> ChVector3d \<Rightarrow> SCMLoaderOld \<Rightarrow> SCMLoaderOld"
where
  "AddActiveDomain body OOBB_center OOBB_dims s =
     s\<lparr> m_active_domains := m_active_domains s @
           [\<lparr> m_body_ParentToLocal = body, m_center = OOBB_center,
              m_hdims = vscale OOBB_dims (1 / 2), m_range = [], m_ooN = VNULL \<rparr>],
        m_user_domains := True \<rparr>"

definition SetupInitial :: "SCMLoaderOld \<Rightarrow> SCMLoaderOld" where
  "SetupInitial s =
     (if \<not> m_user_domains s
      then s\<lparr>m_active_domains := m_active_domains s @
               [\<lparr> m_body_ParentToLocal = (\<lambda>v. v), m_center = ChVector3d 0 0 0,
                  m_hdims = ChVector3d 0.1 0.1 0.1, m_range = [], m_ooN = VNULL \<rparr>]\<rparr>
      else s)"

definition RegisterSoilParametersCallback ::
  "(ChVector3d \<Rightarrow> SoilCallbackValues) option \<Rightarrow> SCMLoaderOld \<Rightarrow> SCMLoaderOld"
where
  "RegisterSoilParametersCallback cb s = s\<lparr>m_soil_fun := cb\<rparr>"

text \<open>
  Flat initialisation. The visualisation mesh is not part of the model. The casts
  \<^verbatim>\<open>static_cast<int>(std::ceil(...))\<close> are defined when the value fits an \<^verbatim>\<open>int\<close>.
\<close>

definition Initialize_flat :: "real \<Rightarrow> real \<Rightarrow> real \<Rightarrow> SCMLoaderOld \<Rightarrow> SCMLoaderOld" where
  "Initialize_flat sizeX sizeY delta s =
     (let nx = \<lceil>(sizeX / 2) / delta\<rceil>;
          ny = \<lceil>(sizeY / 2) / delta\<rceil>;
          d = sizeX / real_of_int (2 * nx)
      in s\<lparr> m_type := FLAT, m_nx := nx, m_ny := ny, m_delta := d, m_area := d ^ 2 \<rparr>)"

section \<open>Grid queries\<close>

text \<open>\<^verbatim>\<open>ChClamp\<close> of the Chrono utilities.\<close>

definition ChClamp :: "int \<Rightarrow> int \<Rightarrow> int \<Rightarrow> int" where
  "ChClamp v lo hi = (if v < lo then lo else if v > hi then hi else v)"

definition GetInitHeight :: "SCMLoaderOld \<Rightarrow> ChVector2i \<Rightarrow> real" where
  "GetInitHeight s loc =
     (case m_type s of
        FLAT \<Rightarrow> 0
      | _ \<Rightarrow> (let x = ChClamp (fst loc) (- m_nx s) (m_nx s);
                  y = ChClamp (snd loc) (- m_ny s) (m_ny s)
              in m_heights s (x + m_nx s) (y + m_ny s)))"

definition GetInitNormal :: "ext \<Rightarrow> SCMLoaderOld \<Rightarrow> ChVector2i \<Rightarrow> ChVector3d" where
  "GetInitNormal E s loc =
     (case m_type s of
        FLAT \<Rightarrow> ChVector3d 0 0 1
      | _ \<Rightarrow> (let hE = GetInitHeight s (cell_add loc (1, 0));
                  hW = GetInitHeight s (cell_sub loc (1, 0));
                  hN = GetInitHeight s (cell_add loc (0, 1));
                  hS = GetInitHeight s (cell_sub loc (0, 1))
              in GetNormalized E (ChVector3d (hW - hE) (hS - hN) (2 * m_delta s))))"

definition GetHeight :: "SCMLoaderOld \<Rightarrow> ChVector2i \<Rightarrow> real" where
  "GetHeight s loc =
     (case map_of (m_grid_map s) loc of
        Some nr \<Rightarrow> level nr
      | None \<Rightarrow> GetInitHeight s loc)"

section \<open>Material transfer between nodes\<close>

definition AddMaterialToNode :: "real \<Rightarrow> NodeRecord \<Rightarrow> NodeRecord" where
  "AddMaterialToNode amount nr =
     (let clamped = amount > hit_level nr - level nr;
          nr1 = (if clamped
                 then nr\<lparr>massremainder := massremainder nr + (amount - (hit_level nr - level nr))\<rparr>
                 else nr);
          amount1 = (if clamped then hit_level nr - level nr else amount)
      in nr1\<lparr>level := level nr1 + amount1, level_initial := level_initial nr1 + amount1\<rparr>)"

definition RemoveMaterialFromNode :: "real \<Rightarrow> NodeRecord \<Rightarrow> NodeRecord" where
  "RemoveMaterialFromNode amount nr =
     (if massremainder nr > amount then
        (let nr1 = nr\<lparr>massremainder := massremainder nr - amount\<rparr>
         in nr1\<lparr>level := level nr1 - amount, level_initial := level_initial nr1 - amount\<rparr>)
      else if massremainder nr < amount \<and> massremainder nr > 0 then
        (let amount1 = amount - massremainder nr;
             nr1 = nr\<lparr>massremainder := 0\<rparr>
         in nr1\<lparr>level := level nr1 - amount1, level_initial := level_initial nr1 - amount1\<rparr>)
      else nr\<lparr>level := level nr - amount, level_initial := level_initial nr - amount\<rparr>)"

section \<open>Contact patches\<close>

record HitRecord =
  contactable :: ChContactable
  abs_point :: ChVector3d
  patch_id :: int

record ContactPatchRecord =
  points :: "ChVector2d list"
  nodes :: "ChVector2i list"
  area :: real
  perimeter :: real
  oob :: real

text \<open>
  Area, perimeter and the approximation of the Bekker term \<open>1/b\<close> of one contact patch:
  the body of the loop over \<^verbatim>\<open>contact_patches\<close>.
\<close>

definition patch_geometry :: "ext \<Rightarrow> ContactPatchRecord \<Rightarrow> ContactPatchRecord" where
  "patch_geometry E p =
     (let ch = ConvexHull2D E (points p);
          a = GetArea ch;
          per = GetPerimeter ch
      in p\<lparr> area := a, perimeter := per,
             oob := (if a < 1 / 1000000 then 0 else per / (2 * a)) \<rparr>)"


section \<open>The step: \<^verbatim>\<open>ComputeInternalForces\<close>\<close>

text \<open>
  A loop whose body may throw: the first exception ends the loop.
\<close>

fun fold_opt :: "('a \<Rightarrow> 's \<Rightarrow> 's option) \<Rightarrow> 'a list \<Rightarrow> 's \<Rightarrow> 's option" where
  "fold_opt f [] s = Some s"
| "fold_opt f (x # xs) s = (case f x s of None \<Rightarrow> None | Some s' \<Rightarrow> fold_opt f xs s')"

text \<open>
  \<^verbatim>\<open>unordered_map::insert\<close> and \<^verbatim>\<open>unordered_set::insert\<close> leave the container unchanged
  when the key is already there.
\<close>

definition map_insert :: "'k \<Rightarrow> 'v \<Rightarrow> ('k \<times> 'v) list \<Rightarrow> ('k \<times> 'v) list" where
  "map_insert k v m = (if map_of m k = None then m @ [(k, v)] else m)"

definition set_insert :: "'k \<Rightarrow> 'k list \<Rightarrow> 'k list" where
  "set_insert k xs = (if k \<in> set xs then xs else xs @ [k])"

definition neighbors4 :: "ChVector2i list" where
  "neighbors4 = [(0, -1), (-1, 0), (1, 0), (0, 1)]"

subsection \<open>Reset of the nodes modified over the previous step\<close>

definition reset_node :: "ChVector2i \<Rightarrow> SCMLoaderOld \<Rightarrow> SCMLoaderOld option" where
  "reset_node ij s =
     (case map_of (m_grid_map s) ij of
        None \<Rightarrow> None
      | Some nr \<Rightarrow>
          Some (s\<lparr>m_grid_map :=
                  AList.update ij
                    (nr\<lparr> sigma := 0, sinkage_elastic := 0, step_plastic_flow := 0,
                         erosion := False, hit_level := 1000000000 \<rparr>)
                    (m_grid_map s)\<rparr>))"

definition reset_step :: "SCMLoaderOld \<Rightarrow> SCMLoaderOld option" where
  "reset_step s =
     (case fold_opt reset_node (m_modified_nodes s) s of
        None \<Rightarrow> None
      | Some s1 \<Rightarrow>
          Some (s1\<lparr> m_modified_nodes := [], load_list := [],
                    m_body_forces := [], m_node_forces := [] \<rparr>))"

subsection \<open>Ray casting\<close>

definition RayOBBtest :: "ActiveDomainInfo \<Rightarrow> ChVector3d \<Rightarrow> bool" where
  "RayOBBtest p from =
     (let orig = vsub (m_body_ParentToLocal p from) (m_center p);
          t1 = (- vx (m_hdims p) - vx orig) * vx (m_ooN p);
          t2 = (vx (m_hdims p) - vx orig) * vx (m_ooN p);
          t3 = (- vy (m_hdims p) - vy orig) * vy (m_ooN p);
          t4 = (vy (m_hdims p) - vy orig) * vy (m_ooN p);
          t5 = (- vz (m_hdims p) - vz orig) * vz (m_ooN p);
          t6 = (vz (m_hdims p) - vz orig) * vz (m_ooN p);
          tmin = max (max (min t1 t2) (min t3 t4)) (min t5 t6);
          tmax = min (min (max t1 t2) (max t3 t4)) (max t5 t6)
      in if tmax < 0 then False else if tmin > tmax then False else True)"

text \<open>
  What the body of the loop over the cells of an active domain does at one cell: it
  skips the cell (\<open>NoCast\<close>), or it casts the ray and the ray misses (\<open>NoHit\<close>) or hits.
\<close>

datatype RayOutcome = NoCast | NoHit | HitAt HitRecord

definition cast_ray :: "ext \<Rightarrow> SCMLoaderOld \<Rightarrow> ActiveDomainInfo \<Rightarrow> ChVector2i \<Rightarrow> RayOutcome" where
  "cast_ray E s p ij =
     (let x = real_of_int (fst ij) * m_delta s;
          y = real_of_int (snd ij) * m_delta s;
          z = GetHeight s ij
      in if m_boundary s \<and>
            (x > vx (aabb_max (m_aabb s)) \<or> x < vx (aabb_min (m_aabb s)) \<or>
             y > vy (aabb_max (m_aabb s)) \<or> y < vy (aabb_min (m_aabb s)))
         then NoCast
         else
           (let vertex_abs = TransformPointLocalToParent (m_frame s) (ChVector3d x y z);
                to = vadd vertex_abs (vscale (m_Z s) (m_test_offset_up s));
                from = vsub to (vscale (m_Z s) (m_test_offset_down s))
            in if m_user_domains s \<and> \<not> RayOBBtest p from then NoCast
               else (case RayHit E from to of
                       None \<Rightarrow> NoHit
                     | Some (c, pt) \<Rightarrow>
                         HitAt \<lparr>contactable = c, abs_point = pt, patch_id = - 1\<rparr>)))"

type_synonym HitMap = "(ChVector2i \<times> HitRecord) list"

text \<open>
  The loop over the cells of one active domain: the number of rays cast and the hits.
  The worker threads and their maps are one map here; its content does not depend on
  how the cells are shared out when the cells of the range are distinct.
\<close>

definition cast_domain :: "ext \<Rightarrow> SCMLoaderOld \<Rightarrow> ActiveDomainInfo \<Rightarrow> int \<times> HitMap" where
  "cast_domain E s p =
     fold (\<lambda>ij (num_ray_casts, t_hits).
             case cast_ray E s p ij of
               NoCast \<Rightarrow> (num_ray_casts, t_hits)
             | NoHit \<Rightarrow> (num_ray_casts + 1, t_hits)
             | HitAt r \<Rightarrow> (num_ray_casts + 1, map_insert ij r t_hits))
          (m_range p) (0, [])"

definition insert_hit_node :: "ext \<Rightarrow> ChVector2i \<Rightarrow> SCMLoaderOld \<Rightarrow> SCMLoaderOld" where
  "insert_hit_node E ij s =
     (if map_of (m_grid_map s) ij = None then
        (let z = GetInitHeight s ij
         in s\<lparr>m_grid_map := m_grid_map s @ [(ij, NodeRecord_new z z (GetInitNormal E s ij))]\<rparr>)
      else s)"

definition ray_cast_domain ::
  "ext \<Rightarrow> ActiveDomainInfo \<Rightarrow> SCMLoaderOld \<times> HitMap \<Rightarrow> SCMLoaderOld \<times> HitMap"
where
  "ray_cast_domain E p acc =
     (case acc of (s, hits) \<Rightarrow>
        (case cast_domain E s p of (num_ray_casts, t_hits) \<Rightarrow>
           (let s1 = s\<lparr>m_num_ray_casts := m_num_ray_casts s + num_ray_casts\<rparr>;
                s2 = fold (insert_hit_node E) (map fst t_hits) s1;
                hits1 = fold (\<lambda>h hs. map_insert (fst h) (snd h) hs) t_hits hits
            in (s2\<lparr>m_num_ray_hits := int (length hits1)\<rparr>, hits1))))"

definition ray_casting :: "ext \<Rightarrow> SCMLoaderOld \<Rightarrow> SCMLoaderOld \<times> HitMap" where
  "ray_casting E s =
     fold (ray_cast_domain E) (m_active_domains s)
       (s\<lparr>m_num_ray_casts := 0, m_num_ray_hits := 0\<rparr>, [])"

subsection \<open>Contact patches by flood fill\<close>

definition flood_visit ::
  "real \<Rightarrow> ChVector2i \<Rightarrow> int \<Rightarrow> ChVector2i \<Rightarrow>
   HitMap \<times> ContactPatchRecord \<times> ChVector2i list \<Rightarrow>
   HitMap \<times> ContactPatchRecord \<times> ChVector2i list"
where
  "flood_visit delta crt_ij crt_patch off acc =
     (case acc of (hits, patch, todo) \<Rightarrow>
        (let nbr_ij = cell_add crt_ij off
         in case map_of hits nbr_ij of
              None \<Rightarrow> acc
            | Some nbr \<Rightarrow>
                if patch_id nbr \<noteq> - 1 then acc
                else (AList.update nbr_ij (nbr\<lparr>patch_id := crt_patch\<rparr>) hits,
                      patch\<lparr> nodes := nodes patch @ [nbr_ij],
                             points := points patch @
                               [(delta * real_of_int (fst nbr_ij),
                                 delta * real_of_int (snd nbr_ij))] \<rparr>,
                      todo @ [nbr_ij])))"

text \<open>
  The work queue of the flood fill. Every queued node is a hit node that already carries
  its patch id; the two cases that the code cannot reach (the front of the queue is not
  a hit node, or it has no patch id) end the run with \<^const>\<open>None\<close>.
\<close>

function flood_fill ::
  "real \<Rightarrow> HitMap \<Rightarrow> ContactPatchRecord \<Rightarrow> ChVector2i list \<Rightarrow>
   (HitMap \<times> ContactPatchRecord) option"
where
  "flood_fill delta hits patch [] = Some (hits, patch)"
| "flood_fill delta hits patch (c # todo) =
     (case map_of hits c of
        None \<Rightarrow> None
      | Some crt \<Rightarrow>
          if patch_id crt = - 1 then None
          else (case fold (flood_visit delta c (patch_id crt)) neighbors4 (hits, patch, todo) of
                  (hits1, patch1, todo1) \<Rightarrow> flood_fill delta hits1 patch1 todo1))"
  by pat_completeness auto


text \<open>Termination: each round either gives a patch id to a hit node or shortens the queue.\<close>

definition unassigned :: "HitMap \<Rightarrow> nat" where
  "unassigned hits = length (filter (\<lambda>h. patch_id (snd h) = - 1) hits)"

lemma unassigned_update:
  "map_of hits k = Some v \<Longrightarrow> patch_id v = - 1 \<Longrightarrow> pid \<noteq> - 1 \<Longrightarrow>
   Suc (unassigned (AList.update k (v\<lparr>patch_id := pid\<rparr>) hits)) = unassigned hits"
  by (induction hits) (auto simp: unassigned_def)

lemma flood_visit_measure:
  assumes "crt_patch \<noteq> - 1"
    and "flood_visit delta crt_ij crt_patch off (hits, patch, todo) = (hits1, patch1, todo1)"
  shows "2 * unassigned hits1 + length todo1 \<le> 2 * unassigned hits + length todo"
  using assms unassigned_update [of hits "cell_add crt_ij off" _ crt_patch]
  by (auto simp: flood_visit_def Let_def split: option.splits if_splits)

lemma flood_visits_measure:
  assumes "crt_patch \<noteq> - 1"
    and "fold (flood_visit delta crt_ij crt_patch) offs (hits, patch, todo)
         = (hits1, patch1, todo1)"
  shows "2 * unassigned hits1 + length todo1 \<le> 2 * unassigned hits + length todo"
  using assms
proof (induction offs arbitrary: hits patch todo)
  case Nil
  then show ?case by simp
next
  case (Cons off offs)
  obtain h2 p2 t2
    where st: "flood_visit delta crt_ij crt_patch off (hits, patch, todo) = (h2, p2, t2)"
    by (cases "flood_visit delta crt_ij crt_patch off (hits, patch, todo)") auto
  from Cons.prems(2) st
  have "fold (flood_visit delta crt_ij crt_patch) offs (h2, p2, t2) = (hits1, patch1, todo1)"
    by simp
  from Cons.IH [OF Cons.prems(1) this] flood_visit_measure [OF Cons.prems(1) st]
  show ?case by linarith
qed

lemma flood_visits_measure_case:
  "crt_patch \<noteq> - 1 \<Longrightarrow>
   (case fold (flood_visit delta crt_ij crt_patch) offs (hits, patch, todo) of
      (hits1, patch1, todo1) \<Rightarrow> 2 * unassigned hits1 + length todo1)
   \<le> 2 * unassigned hits + length todo"
  using flood_visits_measure [of crt_patch delta crt_ij offs hits patch todo]
  by (cases "fold (flood_visit delta crt_ij crt_patch) offs (hits, patch, todo)") auto

termination flood_fill
  apply (relation "measure (\<lambda>(delta, hits, patch, todo). 2 * unassigned hits + length todo)")
   apply simp
  apply (simp add: less_Suc_eq_le flood_visits_measure_case)
  done

text \<open>
  The body of the loop over the hit nodes: a hit node without patch id starts a new
  patch, whose id is the number of patches found so far. The fields \<open>area\<close>,
  \<open>perimeter\<close> and \<open>oob\<close> of the new patch are set later, by \<open>patch_geometry\<close>.
\<close>

definition seed_patch ::
  "real \<Rightarrow> ChVector2i \<Rightarrow> HitMap \<times> ContactPatchRecord list \<Rightarrow>
   (HitMap \<times> ContactPatchRecord list) option"
where
  "seed_patch delta ij acc =
     (case acc of (hits, contact_patches) \<Rightarrow>
        (case map_of hits ij of
           None \<Rightarrow> None
         | Some h \<Rightarrow>
             if patch_id h \<noteq> - 1 then Some acc
             else
               (let hits1 = AList.update ij (h\<lparr>patch_id := int (length contact_patches)\<rparr>) hits;
                    patch = \<lparr> points = [(delta * real_of_int (fst ij),
                                          delta * real_of_int (snd ij))],
                              nodes = [ij], area = 0, perimeter = 0, oob = 0 \<rparr>
                in case flood_fill delta hits1 patch [ij] of
                     None \<Rightarrow> None
                   | Some (hits2, patch2) \<Rightarrow> Some (hits2, contact_patches @ [patch2]))))"

definition find_contact_patches ::
  "ext \<Rightarrow> real \<Rightarrow> HitMap \<Rightarrow> (HitMap \<times> ContactPatchRecord list) option"
where
  "find_contact_patches E delta hits =
     (case fold_opt (seed_patch delta) (map fst hits) (hits, []) of
        None \<Rightarrow> None
      | Some (hits1, contact_patches) \<Rightarrow> Some (hits1, map (patch_geometry E) contact_patches))"

subsection \<open>Contact forces\<close>

text \<open>The local values of the soil parameters in the loop over the hit nodes.\<close>

record SoilParams =
  Bekker_Kphi :: real
  Bekker_Kc :: real
  Bekker_n :: real
  Mohr_cohesion :: real
  Mohr_mu :: real
  Janosi_shear :: real
  elastic_K :: real
  damping_R :: real

definition soil_at :: "SCMLoaderOld \<Rightarrow> ChVector3d \<Rightarrow> SoilParams" where
  "soil_at s hit_point_loc =
     (case m_soil_fun s of
        None \<Rightarrow>
          \<lparr> Bekker_Kphi = m_Bekker_Kphi s, Bekker_Kc = m_Bekker_Kc s, Bekker_n = m_Bekker_n s,
            Mohr_cohesion = m_Mohr_cohesion s, Mohr_mu = m_Mohr_mu s,
            Janosi_shear = m_Janosi_shear s, elastic_K = m_elastic_K s,
            damping_R = m_damping_R s \<rparr>
      | Some f \<Rightarrow>
          (let v = f hit_point_loc
           in \<lparr> Bekker_Kphi = cb_Bekker_Kphi v, Bekker_Kc = cb_Bekker_Kc v,
                Bekker_n = cb_Bekker_n v, Mohr_cohesion = cb_Mohr_cohesion v,
                Mohr_mu = tan (cb_Mohr_friction v * CH_DEG_TO_RAD),
                Janosi_shear = cb_Janosi_shear v, elastic_K = cb_elastic_K v,
                damping_R = cb_damping_R v \<rparr>))"

text \<open>
  The elastic try at a hit node: the node with its \<open>hit_level\<close> and its trial pressure,
  and the offset of the hit along the local normal.
\<close>

definition elastic_try :: "SoilParams \<Rightarrow> real \<Rightarrow> NodeRecord \<Rightarrow> NodeRecord \<times> real" where
  "elastic_try P hit_z nr =
     (let ca = vz (normal nr);
          nr1 = nr\<lparr>hit_level := hit_z\<rparr>;
          p_hit_offset = ca * (level_initial nr1 - hit_level nr1)
      in (nr1\<lparr>sigma := elastic_K P * (p_hit_offset - sinkage_plastic nr1)\<rparr>, p_hit_offset))"

text \<open>The plastic correction by the Bekker formula, with the \<open>1/b\<close> of the patch.\<close>

definition plastic_correction :: "ext \<Rightarrow> SoilParams \<Rightarrow> real \<Rightarrow> NodeRecord \<Rightarrow> NodeRecord" where
  "plastic_correction E P patch_oob nr =
     (let nr1 = nr\<lparr>sigma := (patch_oob * Bekker_Kc P + Bekker_Kphi P)
                              * std_pow E (sinkage nr) (Bekker_n P)\<rparr>;
          nr2 = nr1\<lparr>sigma_yield := sigma nr1\<rparr>;
          old_sinkage_plastic = sinkage_plastic nr2;
          nr3 = nr2\<lparr>sinkage_plastic := sinkage nr2 - sigma nr2 / elastic_K P\<rparr>
      in nr3\<lparr>step_plastic_flow := (sinkage_plastic nr3 - old_sinkage_plastic) / GetStep E\<rparr>)"

text \<open>
  The accumulation of the force of one hit node on its contactable, by run-time type.
\<close>

definition add_node_force :: "nat \<times> real \<Rightarrow> ChVector3d \<Rightarrow> SCMLoaderOld \<Rightarrow> SCMLoaderOld" where
  "add_node_force nw force s =
     (let node_force = vscale force (snd nw)
      in case map_of (m_node_forces s) (fst nw) of
           None \<Rightarrow> s\<lparr>m_node_forces := m_node_forces s @ [(fst nw, node_force)]\<rparr>
         | Some f \<Rightarrow>
             s\<lparr>m_node_forces := AList.update (fst nw) (vadd f node_force) (m_node_forces s)\<rparr>)"

definition accumulate_force ::
  "ChContactable \<Rightarrow> ChVector3d \<Rightarrow> ChVector3d \<Rightarrow> ChVector3d \<Rightarrow> SCMLoaderOld \<Rightarrow> SCMLoaderOld"
where
  "accumulate_force c point_abs Fn Ft s =
     (case kind c of
        IsBody b \<Rightarrow>
          (let force = vadd Fn Ft;
               moment = Vcross (vsub point_abs (GetPos c)) force
           in case map_of (m_body_forces s) b of
                None \<Rightarrow> s\<lparr>m_body_forces := m_body_forces s @ [(b, (force, moment))]\<rparr>
              | Some fm \<Rightarrow>
                  s\<lparr>m_body_forces :=
                      AList.update b (vadd (fst fm) force, vadd (snd fm) moment)
                        (m_body_forces s)\<rparr>)
      | IsTriangle n0 n1 n2 \<Rightarrow>
          (let force = vadd Fn Ft;
               uv = ComputeUVfromP c point_abs;
               s0 = 1 - fst uv - snd uv
           in fold (\<lambda>nw. add_node_force nw force) [(n0, s0), (n1, fst uv), (n2, snd uv)] s)
      | IsLoadableUV surf \<Rightarrow>
          (if \<not> m_cosim_mode s
           then s\<lparr>load_list := load_list s @ [ChLoaderForceOnSurface surf (vadd Fn Ft)]\<rparr>
           else s)
      | IsOther \<Rightarrow> s)"


text \<open>
  The update of the node record of a hit node whose trial pressure is not negative, from
  \<^verbatim>\<open>nr.sinkage = p_hit_offset\<close> to the assignment of \<^verbatim>\<open>nr.tau\<close>. \<open>Vn\<close> is the normal
  speed of the contactable at the node and \<open>Vt\<close> is \<^verbatim>\<open>Vdot(speed_abs, -T)\<close>.
\<close>

definition constitutive_update ::
  "ext \<Rightarrow> SoilParams \<Rightarrow> real \<Rightarrow> real \<Rightarrow> real \<Rightarrow> real \<Rightarrow> NodeRecord \<Rightarrow> NodeRecord"
where
  "constitutive_update E P patch_oob p_hit_offset Vn Vt nr =
     (let nr2 = nr\<lparr>sinkage := p_hit_offset, level := hit_level nr\<rparr>;
          nr3 = nr2\<lparr>kshear := kshear nr2 + Vt * GetStep E\<rparr>;
          nr4 = (if sigma nr3 > sigma_yield nr3
                 then plastic_correction E P patch_oob nr3 else nr3);
          nr5 = nr4\<lparr>sinkage_elastic := sinkage nr4 - sinkage_plastic nr4\<rparr>;
          nr6 = nr5\<lparr>sigma := sigma nr5 + (- Vn * damping_R P)\<rparr>;
          tau_max = Mohr_cohesion P + sigma nr6 * Mohr_mu P
      in nr6\<lparr>tau := tau_max * (1 - exp (- (kshear nr6 / Janosi_shear P)))\<rparr>)"

definition tangential_force ::
  "SCMLoaderOld \<Rightarrow> ChContactable \<Rightarrow> ChVector3d \<Rightarrow> NodeRecord \<Rightarrow> ChVector3d"
where
  "tangential_force s c T nr =
     (case GetUserData c of
        Some cprops \<Rightarrow>
          (let c_tau_max = cd_Mohr_cohesion cprops + sigma nr * cd_Mohr_mu cprops;
               c_tau = c_tau_max * (1 - exp (- (kshear nr / cd_Janosi_shear cprops)));
               ratio = area_ratio cprops
           in vscale (vscale T (m_area s)) ((1 - ratio) * tau nr + ratio * c_tau))
      | None \<Rightarrow> vscale (vscale T (m_area s)) (tau nr))"

text \<open>
  The body of the loop over the hit nodes. \<^verbatim>\<open>m_grid_map.at(ij)\<close> throws when the node
  has no record, and \<^verbatim>\<open>contact_patches[patch_id]\<close> is read, in the plastic correction
  only, at an index that must be in range.
\<close>

definition process_hit ::
  "ext \<Rightarrow> ContactPatchRecord list \<Rightarrow> ChVector2i \<times> HitRecord \<Rightarrow> SCMLoaderOld \<Rightarrow>
   SCMLoaderOld option"
where
  "process_hit E contact_patches h s =
     (let ij = fst h;
          c = contactable (snd h);
          pid = patch_id (snd h)
      in case map_of (m_grid_map s) ij of
           None \<Rightarrow> None
         | Some nr \<Rightarrow>
             (let ca = vz (normal nr);
                  hit_point_loc = TransformPointParentToLocal (m_frame s) (abs_point (snd h));
                  P = soil_at s hit_point_loc;
                  nr1 = fst (elastic_try P (vz hit_point_loc) nr);
                  p_hit_offset = snd (elastic_try P (vz hit_point_loc) nr)
              in if sigma nr1 < 0
                 then Some (s\<lparr>m_grid_map := AList.update ij (nr1\<lparr>sigma := 0\<rparr>) (m_grid_map s)\<rparr>)
                 else
                   (let s1 = s\<lparr>m_modified_nodes := m_modified_nodes s @ [ij]\<rparr>;
                        point_local = ChVector3d (real_of_int (fst ij) * m_delta s)
                                                 (real_of_int (snd ij) * m_delta s) (level nr1);
                        point_abs = TransformPointLocalToParent (m_frame s) point_local;
                        speed_abs = GetContactPointSpeed c point_abs;
                        N = TransformDirectionLocalToParent (m_frame s) (normal nr1);
                        Vn = Vdot speed_abs N;
                        T = Normalize E (vneg (vsub speed_abs (vscale N Vn)));
                        Vt = Vdot speed_abs (vneg T)
                    in if sigma nr1 > sigma_yield nr1 \<and>
                          \<not> (0 \<le> pid \<and> pid < int (length contact_patches))
                       then None
                       else
                         (let nr7 = constitutive_update E P (oob (contact_patches ! nat pid))
                                      p_hit_offset Vn Vt nr1;
                              Fn = vscale (vscale N (m_area s)) (sigma nr7);
                              Ft = tangential_force s c T nr7;
                              s2 = accumulate_force c point_abs Fn Ft s1;
                              nr8 = nr7\<lparr>level := level_initial nr7 - sinkage nr7 / ca\<rparr>
                          in Some (s2\<lparr>m_grid_map := AList.update ij nr8 (m_grid_map s2)\<rparr>)))))"

text \<open>
  After the loop: outside co-simulation mode, one force load and one torque load for each
  body and one force load for each FEA node.
\<close>

definition create_loads :: "SCMLoaderOld \<Rightarrow> SCMLoaderOld" where
  "create_loads s =
     (if \<not> m_cosim_mode s
      then s\<lparr>load_list := load_list s
                @ concat (map (\<lambda>f. [ChLoadBodyForce (fst f) (fst (snd f)),
                                      ChLoadBodyTorque (fst f) (snd (snd f))])
                              (m_body_forces s))
                @ map (\<lambda>f. ChLoadNodeXYZ (fst f) (snd f)) (m_node_forces s)\<rparr>
      else s)"

subsection \<open>Bulldozing\<close>

text \<open>(1) Raise the boundary of each contact patch.\<close>

definition boundary_of_node ::
  "(ChVector2i \<times> NodeRecord) list \<Rightarrow> ChVector2i \<Rightarrow> ChVector2i list \<Rightarrow> ChVector2i list"
where
  "boundary_of_node g ij p_boundary =
     fold (\<lambda>off pb.
             (let nbr_ij = cell_add ij off
              in case map_of g nbr_ij of
                   None \<Rightarrow> set_insert nbr_ij pb
                 | Some nbr \<Rightarrow> if sigma nbr \<le> 0 then set_insert nbr_ij pb else pb))
          neighbors4 p_boundary"

definition patch_flow_node ::
  "(ChVector2i \<times> NodeRecord) list \<Rightarrow> ChVector2i \<Rightarrow> real \<times> ChVector2i list \<Rightarrow>
   (real \<times> ChVector2i list) option"
where
  "patch_flow_node g ij acc =
     (case map_of g ij of
        None \<Rightarrow> None
      | Some nr \<Rightarrow>
          if sigma nr \<le> 0 then Some acc
          else Some (fst acc + step_plastic_flow nr, boundary_of_node g ij (snd acc)))"

definition raise_node :: "ext \<Rightarrow> real \<Rightarrow> ChVector2i \<Rightarrow> SCMLoaderOld \<Rightarrow> SCMLoaderOld" where
  "raise_node E diff ij s =
     (case map_of (m_grid_map s) ij of
        None \<Rightarrow>
          (let z = GetInitHeight s ij;
               nr = NodeRecord_new z z (GetInitNormal E s ij)
           in s\<lparr> m_modified_nodes := m_modified_nodes s @ [ij, ij],
                  m_grid_map := m_grid_map s
                     @ [(ij, AddMaterialToNode diff (nr\<lparr>erosion := True\<rparr>))] \<rparr>)
      | Some nr \<Rightarrow>
          s\<lparr> m_modified_nodes := m_modified_nodes s @ [ij],
              m_grid_map := AList.update ij (AddMaterialToNode diff (nr\<lparr>erosion := True\<rparr>))
                              (m_grid_map s) \<rparr>)"

definition raise_patch_boundary ::
  "ext \<Rightarrow> ContactPatchRecord \<Rightarrow> SCMLoaderOld \<times> ChVector2i list \<Rightarrow>
   (SCMLoaderOld \<times> ChVector2i list) option"
where
  "raise_patch_boundary E p acc =
     (case fold_opt (patch_flow_node (m_grid_map (fst acc))) (nodes p) (0, []) of
        None \<Rightarrow> None
      | Some fb \<Rightarrow>
          (let p_boundary = snd fb;
               tot_step_flow = fst fb * GetStep E;
               diff = m_flow_factor (fst acc) * tot_step_flow / real (length p_boundary)
           in Some (fold (raise_node E diff) p_boundary (fst acc),
                    fold set_insert p_boundary (snd acc))))"

text \<open>(2) The erosion domain: the boundary, dilated.\<close>

definition dilate_neighbor ::
  "ext \<Rightarrow> ChVector2i \<Rightarrow> ChVector2i \<Rightarrow> SCMLoaderOld \<times> ChVector2i list \<Rightarrow>
   SCMLoaderOld \<times> ChVector2i list"
where
  "dilate_neighbor E ij off acc =
     (let s = fst acc;
          front = snd acc;
          nbr_ij = cell_add ij off
      in case map_of (m_grid_map s) nbr_ij of
           None \<Rightarrow>
             (let z = GetInitHeight s nbr_ij;
                  nr = (NodeRecord_new z z (GetInitNormal E s nbr_ij))\<lparr>erosion := True\<rparr>
              in (s\<lparr> m_grid_map := m_grid_map s @ [(nbr_ij, nr)],
                      m_modified_nodes := m_modified_nodes s @ [nbr_ij] \<rparr>,
                  set_insert nbr_ij front))
         | Some nr \<Rightarrow>
             if \<not> erosion nr \<and> sigma nr \<le> 0
             then (s\<lparr> m_grid_map := AList.update nbr_ij (nr\<lparr>erosion := True\<rparr>) (m_grid_map s),
                       m_modified_nodes := m_modified_nodes s @ [nbr_ij] \<rparr>,
                   set_insert nbr_ij front)
             else acc)"

definition dilate_front ::
  "ext \<Rightarrow> SCMLoaderOld \<times> ChVector2i list \<times> ChVector2i list \<Rightarrow>
   SCMLoaderOld \<times> ChVector2i list \<times> ChVector2i list"
where
  "dilate_front E acc =
     (case acc of (s, erosion_domain, erosion_front) \<Rightarrow>
        (let sf = fold (\<lambda>ij. fold (dilate_neighbor E ij) neighbors4) erosion_front (s, [])
         in (fst sf, fold set_insert (snd sf) erosion_domain, snd sf)))"

text \<open>(3) The erosion algorithm on the domain.\<close>

definition erode_pair :: "real \<Rightarrow> NodeRecord \<times> NodeRecord \<Rightarrow> NodeRecord \<times> NodeRecord" where
  "erode_pair dy_lim pr =
     (let nr = fst pr;
          nbr_nr = snd pr;
          diff = 0.5 * (massremainder nr - massremainder nbr_nr) / 4;
          nr1 = (if diff > 0 then RemoveMaterialFromNode diff nr else nr);
          nbr1 = (if diff > 0 then AddMaterialToNode diff nbr_nr else nbr_nr)
      in if sigma nbr1 = 0 then
           (let dy = (level nr1 + massremainder nr1) - (level nbr1 + massremainder nbr1);
                diff2 = 0.5 * (\<bar>dy\<bar> - dy_lim) / 4
            in if diff2 > 0 then
                 (if dy > 0
                  then (RemoveMaterialFromNode diff2 nr1, AddMaterialToNode diff2 nbr1)
                  else (AddMaterialToNode diff2 nr1, RemoveMaterialFromNode diff2 nbr1))
               else (nr1, nbr1))
         else (nr1, nbr1))"

text \<open>
  In the loop over the four neighbours the record \<open>nr\<close> of the node is a reference into
  the grid map; the neighbour is never the node itself, so the model carries \<open>nr\<close> along
  and stores it when the loop is over.
\<close>

definition erode_neighbor ::
  "real \<Rightarrow> ChVector2i \<Rightarrow> ChVector2i \<Rightarrow>
   NodeRecord \<times> (ChVector2i \<times> NodeRecord) list \<Rightarrow>
   NodeRecord \<times> (ChVector2i \<times> NodeRecord) list"
where
  "erode_neighbor dy_lim ij off acc =
     (let nbr_ij = cell_add ij off
      in case map_of (snd acc) nbr_ij of
           None \<Rightarrow> acc
         | Some nbr_nr \<Rightarrow>
             (let pr = erode_pair dy_lim (fst acc, nbr_nr)
              in (fst pr, AList.update nbr_ij (snd pr) (snd acc))))"

definition erode_node ::
  "real \<Rightarrow> ChVector2i \<Rightarrow> (ChVector2i \<times> NodeRecord) list \<Rightarrow>
   (ChVector2i \<times> NodeRecord) list option"
where
  "erode_node dy_lim ij g =
     (case map_of g ij of
        None \<Rightarrow> None
      | Some nr \<Rightarrow>
          (let ng = fold (erode_neighbor dy_lim ij) neighbors4 (nr, g)
           in Some (AList.update ij (fst ng) (snd ng))))"

definition bulldozing ::
  "ext \<Rightarrow> ContactPatchRecord list \<Rightarrow> SCMLoaderOld \<Rightarrow> SCMLoaderOld option"
where
  "bulldozing E contact_patches s =
     (let s0 = s\<lparr>m_num_erosion_nodes := 0\<rparr>
      in if \<not> m_bulldozing s0 then Some s0
         else
           (let dy_lim = m_delta s0 * m_erosion_slope s0
            in case fold_opt (raise_patch_boundary E) contact_patches (s0, []) of
                 None \<Rightarrow> None
               | Some sb \<Rightarrow>
                   (case (dilate_front E ^^ nat (m_erosion_propagations (fst sb)))
                           (fst sb, snd sb, snd sb) of
                      (s2, erosion_domain, erosion_front) \<Rightarrow>
                        (let s3 = s2\<lparr>m_num_erosion_nodes := int (length erosion_domain)\<rparr>
                         in case fold_opt (erode_node dy_lim)
                                   (concat (replicate (nat (m_erosion_iterations s3))
                                              erosion_domain))
                                   (m_grid_map s3) of
                              None \<Rightarrow> None
                            | Some g \<Rightarrow> Some (s3\<lparr>m_grid_map := g\<rparr>)))))"

subsection \<open>The whole step\<close>

text \<open>
  The model starts after the update of the active domains, which only writes the fields
  of \<^verbatim>\<open>m_active_domains\<close>; the visualisation mesh and the timers are left out.
\<close>

definition contact_forces ::
  "ext \<Rightarrow> SCMLoaderOld \<times> HitMap \<Rightarrow> (SCMLoaderOld \<times> ContactPatchRecord list) option"
where
  "contact_forces E sh =
     (case find_contact_patches E (m_delta (fst sh)) (snd sh) of
        None \<Rightarrow> None
      | Some hp \<Rightarrow>
          (let s3 = (fst sh)\<lparr>m_num_contact_patches := int (length (snd hp))\<rparr>
           in case fold_opt (process_hit E (snd hp)) (fst hp) s3 of
                None \<Rightarrow> None
              | Some s4 \<Rightarrow> Some (create_loads s4, snd hp)))"

definition ComputeInternalForces :: "ext \<Rightarrow> SCMLoaderOld \<Rightarrow> SCMLoaderOld option" where
  "ComputeInternalForces E s =
     (case reset_step s of
        None \<Rightarrow> None
      | Some s1 \<Rightarrow>
          (case contact_forces E (ray_casting E s1) of
             None \<Rightarrow> None
           | Some sp \<Rightarrow> bulldozing E (snd sp) (fst sp)))"

section \<open>Checkpointing\<close>

definition GetModifiedNodes :: "bool \<Rightarrow> SCMLoaderOld \<Rightarrow> (ChVector2i \<times> real) list option" where
  "GetModifiedNodes all_nodes s =
     (if all_nodes then Some (map (\<lambda>nr. (fst nr, level (snd nr))) (m_grid_map s))
      else fold_opt (\<lambda>ij nodes.
                       case map_of (m_grid_map s) ij of
                         None \<Rightarrow> None
                       | Some rec \<Rightarrow> Some (nodes @ [(ij, level rec)]))
                    (m_modified_nodes s) [])"

definition SetModifiedNodes ::
  "ext \<Rightarrow> (ChVector2i \<times> real) list \<Rightarrow> SCMLoaderOld \<Rightarrow> SCMLoaderOld"
where
  "SetModifiedNodes E nodes_list s =
     fold (\<lambda>n s1. s1\<lparr>m_grid_map :=
                       AList.update (fst n)
                         (NodeRecord_new (snd n) (snd n) (GetInitNormal E s1 (fst n)))
                         (m_grid_map s1)\<rparr>)
          nodes_list s"


section \<open>Notions used in the properties\<close>

text \<open>
  How a step changes the grid, for a relation \<open>R\<close> between node records: every node of
  the old grid is a node of the new grid and its two records are related by \<open>R\<close>
  (\<open>grid_rel\<close>), and every node of the new grid is a node of the old grid, or a node
  made by the constructor, changed along \<open>R\<close> (\<open>grid_from\<close>).
\<close>

definition grid_rel ::
  "(NodeRecord \<Rightarrow> NodeRecord \<Rightarrow> bool) \<Rightarrow>
   (ChVector2i \<times> NodeRecord) list \<Rightarrow> (ChVector2i \<times> NodeRecord) list \<Rightarrow> bool"
where
  "grid_rel R g g' \<longleftrightarrow>
     (\<forall>ij nr. map_of g ij = Some nr \<longrightarrow> (\<exists>nr'. map_of g' ij = Some nr' \<and> R nr nr'))"

definition grid_from ::
  "(NodeRecord \<Rightarrow> NodeRecord \<Rightarrow> bool) \<Rightarrow>
   (ChVector2i \<times> NodeRecord) list \<Rightarrow> (ChVector2i \<times> NodeRecord) list \<Rightarrow> bool"
where
  "grid_from R g g' \<longleftrightarrow>
     (\<forall>ij nr'. map_of g' ij = Some nr' \<longrightarrow>
        (\<exists>nr. (map_of g ij = Some nr \<or> (\<exists>z n. nr = NodeRecord_new z z n)) \<and> R nr nr'))"

definition evolves ::
  "(NodeRecord \<Rightarrow> NodeRecord \<Rightarrow> bool) \<Rightarrow>
   (ChVector2i \<times> NodeRecord) list \<Rightarrow> (ChVector2i \<times> NodeRecord) list \<Rightarrow> bool"
where
  "evolves R g g' \<longleftrightarrow> grid_rel R g g' \<and> grid_from R g g'"

text \<open>The soil state of a node record: what bulldozing leaves alone.\<close>

definition soil_state_kept :: "NodeRecord \<Rightarrow> NodeRecord \<Rightarrow> bool" where
  "soil_state_kept nr nr' \<longleftrightarrow>
     sinkage nr' = sinkage nr \<and> sinkage_plastic nr' = sinkage_plastic nr \<and>
     sinkage_elastic nr' = sinkage_elastic nr \<and> sigma nr' = sigma nr \<and>
     sigma_yield nr' = sigma_yield nr"

abbreviation kept ::
  "(ChVector2i \<times> NodeRecord) list \<Rightarrow> (ChVector2i \<times> NodeRecord) list \<Rightarrow> bool"
where
  "kept \<equiv> evolves soil_state_kept"

text \<open>
  The nodes that the loop over the hit nodes marks as modified in a step: the hit nodes
  whose elastic try is not negative.
\<close>

definition touched_nodes :: "ext \<Rightarrow> SCMLoaderOld \<Rightarrow> ChVector2i list" where
  "touched_nodes E s =
     (case reset_step s of
        None \<Rightarrow> []
      | Some s1 \<Rightarrow>
          (case contact_forces E (ray_casting E s1) of
             None \<Rightarrow> []
           | Some sp \<Rightarrow> m_modified_nodes (fst sp)))"

definition decomposed :: "NodeRecord \<Rightarrow> bool" where
  "decomposed nr \<longleftrightarrow> sinkage nr = sinkage_elastic nr + sinkage_plastic nr"

definition modified_decomposed :: "SCMLoaderOld \<Rightarrow> bool" where
  "modified_decomposed s \<longleftrightarrow>
     (\<forall>ij \<in> set (m_modified_nodes s).
        \<exists>nr. map_of (m_grid_map s) ij = Some nr \<and> decomposed nr)"

text \<open>
  The configuration of the loader: the loader without its grid, its list of modified
  nodes, its forces, its loads and its counters.
\<close>

definition config :: "SCMLoaderOld \<Rightarrow> SCMLoaderOld" where
  "config s = s\<lparr> m_grid_map := [], m_modified_nodes := [], m_body_forces := [],
                 m_node_forces := [], load_list := [], m_num_ray_casts := 0,
                 m_num_ray_hits := 0, m_num_contact_patches := 0, m_num_erosion_nodes := 0 \<rparr>"

text \<open>
  A node record is consistent with the Bekker law when it has never yielded, or when its
  yield pressure is the Bekker pressure of some positive sinkage \<open>s0\<close> and its plastic
  sinkage is what the plastic return leaves at that sinkage. One record hardens into
  another when consistency is kept and the yield pressure does not decrease.
\<close>

definition yield_hardened ::
  "(real \<Rightarrow> real \<Rightarrow> real) \<Rightarrow> real \<Rightarrow> real \<Rightarrow> real \<Rightarrow> NodeRecord \<Rightarrow> bool"
where
  "yield_hardened pw Kphi n K nr \<longleftrightarrow>
     (sigma_yield nr = 0 \<and> sinkage_plastic nr = 0) \<or>
     (\<exists>s0>0. sigma_yield nr = Kphi * pw s0 n \<and> sinkage_plastic nr = s0 - sigma_yield nr / K)"

definition hardens ::
  "(real \<Rightarrow> real \<Rightarrow> real) \<Rightarrow> real \<Rightarrow> real \<Rightarrow> real \<Rightarrow> NodeRecord \<Rightarrow> NodeRecord \<Rightarrow> bool"
where
  "hardens pw Kphi n K a b \<longleftrightarrow>
     (yield_hardened pw Kphi n K a \<longrightarrow>
        yield_hardened pw Kphi n K b \<and> sigma_yield a \<le> sigma_yield b)"

text \<open>The conditions on the soil parameters under which the yield pressure hardens.\<close>

definition hardening_soil :: "(real \<Rightarrow> real \<Rightarrow> real) \<Rightarrow> SCMLoaderOld \<Rightarrow> bool" where
  "hardening_soil pw s \<longleftrightarrow>
     m_soil_fun s = None \<and> m_Bekker_Kc s = 0 \<and> 0 \<le> m_Bekker_Kphi s \<and> 0 < m_elastic_K s \<and>
     (\<forall>x y. 0 < x \<and> x \<le> y \<longrightarrow> pw x (m_Bekker_n s) \<le> pw y (m_Bekker_n s)) \<and>
     (\<forall>x. 0 < x \<longrightarrow> 0 \<le> pw x (m_Bekker_n s))"

abbreviation hardens_in :: "(real \<Rightarrow> real \<Rightarrow> real) \<Rightarrow> SCMLoaderOld \<Rightarrow> NodeRecord \<Rightarrow> NodeRecord \<Rightarrow> bool" where
  "hardens_in pw s \<equiv> hardens pw (m_Bekker_Kphi s) (m_Bekker_n s) (m_elastic_K s)"

definition all_hardened :: "(real \<Rightarrow> real \<Rightarrow> real) \<Rightarrow> SCMLoaderOld \<Rightarrow> bool" where
  "all_hardened pw s \<longleftrightarrow>
     (\<forall>ij nr. map_of (m_grid_map s) ij = Some nr \<longrightarrow>
        yield_hardened pw (m_Bekker_Kphi s) (m_Bekker_n s) (m_elastic_K s) nr)"

text \<open>
  The elastic-trial pressure of a ray hit in a state of the loader: what the loop over
  the hit nodes assigns to \<open>sigma\<close> before it tests the sign; there is none when the
  node has no record.
\<close>

definition trial_pressure :: "SCMLoaderOld \<Rightarrow> ChVector2i \<times> HitRecord \<Rightarrow> real option" where
  "trial_pressure s h =
     (case map_of (m_grid_map s) (fst h) of
        None \<Rightarrow> None
      | Some nr \<Rightarrow>
          (let hit_point_loc = TransformPointParentToLocal (m_frame s) (abs_point (snd h))
           in Some (sigma (fst (elastic_try (soil_at s hit_point_loc) (vz hit_point_loc) nr)))))"

definition nonneg_trial :: "SCMLoaderOld \<Rightarrow> ChVector2i \<times> HitRecord \<Rightarrow> bool" where
  "nonneg_trial s h \<longleftrightarrow> (case trial_pressure s h of None \<Rightarrow> False | Some p \<Rightarrow> 0 \<le> p)"

definition negative_trial :: "SCMLoaderOld \<Rightarrow> ChVector2i \<times> HitRecord \<Rightarrow> bool" where
  "negative_trial s h \<longleftrightarrow> (case trial_pressure s h of None \<Rightarrow> False | Some p \<Rightarrow> p < 0)"

text \<open>The loader and the ray hits of a step, after the ray casting.\<close>

definition ray_cast_result :: "ext \<Rightarrow> SCMLoaderOld \<Rightarrow> SCMLoaderOld \<times> HitMap" where
  "ray_cast_result E s =
     (case reset_step s of None \<Rightarrow> (s, []) | Some s1 \<Rightarrow> ray_casting E s1)"

text \<open>The node and the hit point of a ray hit.\<close>

definition hit_key_point :: "ChVector2i \<times> HitRecord \<Rightarrow> ChVector2i \<times> ChVector3d" where
  "hit_key_point h = (fst h, abs_point (snd h))"


subsection \<open>Well-formed loaders and the invariants of the loops\<close>

text \<open>The keys of a map that is kept as an association list.\<close>

definition keys :: "('k \<times> 'v) list \<Rightarrow> 'k set" where
  "keys m = fst ` set m"

text \<open>
  A loader is well formed when every node in its list of modified nodes has a record:
  the loops over \<^verbatim>\<open>m_modified_nodes\<close> look the records up with \<^verbatim>\<open>at\<close>.
\<close>

definition wf_loader :: "SCMLoaderOld \<Rightarrow> bool" where
  "wf_loader s \<longleftrightarrow> set (m_modified_nodes s) \<subseteq> keys (m_grid_map s)"

text \<open>No ray hit has a patch id: the state of the hits after the ray casting.\<close>

definition unassigned_all :: "HitMap \<Rightarrow> bool" where
  "unassigned_all hits \<longleftrightarrow> (\<forall>h \<in> set hits. patch_id (snd h) = - 1)"

text \<open>Every ray hit is without patch id or has an id below \<open>n\<close>.\<close>

definition pids_ok :: "int \<Rightarrow> HitMap \<Rightarrow> bool" where
  "pids_ok n hits \<longleftrightarrow>
     (\<forall>h \<in> set hits. patch_id (snd h) = - 1 \<or> (0 \<le> patch_id (snd h) \<and> patch_id (snd h) < n))"

text \<open>Every node of the work queue is a ray hit with a patch id.\<close>

definition queue_ok :: "HitMap \<Rightarrow> ChVector2i list \<Rightarrow> bool" where
  "queue_ok hits todo \<longleftrightarrow> (\<forall>c \<in> set todo. \<exists>h. map_of hits c = Some h \<and> patch_id h \<noteq> - 1)"

text \<open>The same hit nodes, and the hits that had a patch id are unchanged.\<close>

definition extends :: "HitMap \<Rightarrow> HitMap \<Rightarrow> bool" where
  "extends hits hits' \<longleftrightarrow>
     map fst hits' = map fst hits \<and>
     (\<forall>k h. map_of hits k = Some h \<longrightarrow> patch_id h \<noteq> - 1 \<longrightarrow> map_of hits' k = Some h)"

text \<open>
  The invariant of the flood fill that starts from the hits \<open>hits0\<close> and the patch
  \<open>patch0\<close>: the nodes of the patch are hit nodes.
\<close>

definition flood_inv ::
  "int \<Rightarrow> HitMap \<Rightarrow> ContactPatchRecord \<Rightarrow> HitMap \<times> ContactPatchRecord \<times> ChVector2i list \<Rightarrow> bool"
where
  "flood_inv n hits0 patch0 st \<longleftrightarrow>
     (case st of (hits, patch, todo) \<Rightarrow>
        pids_ok n hits \<and> queue_ok hits todo \<and> extends hits0 hits \<and>
        set (nodes patch) \<subseteq> set (nodes patch0) \<union> keys hits0)"

text \<open>The loop over the hit nodes: the nodes seen so far all have a patch id.\<close>

definition seeded :: "HitMap \<Rightarrow> ChVector2i set \<Rightarrow> bool" where
  "seeded hits ks \<longleftrightarrow> (\<forall>k \<in> ks. \<exists>h. map_of hits k = Some h \<and> patch_id h \<noteq> - 1)"

text \<open>
  The invariant of that loop, over the hit nodes \<open>K\<close>: the ids are below the number of
  patches found so far.
\<close>

definition patches_inv :: "ChVector2i set \<Rightarrow> HitMap \<times> ContactPatchRecord list \<Rightarrow> bool" where
  "patches_inv K acc \<longleftrightarrow>
     keys (fst acc) = K \<and> pids_ok (int (length (snd acc))) (fst acc) \<and>
     (\<forall>p \<in> set (snd acc). set (nodes p) \<subseteq> K)"

text \<open>After the search every hit node has the id of an existing patch, whose nodes are hit nodes.\<close>

definition patched :: "HitMap \<Rightarrow> ContactPatchRecord list \<Rightarrow> bool" where
  "patched hits cps \<longleftrightarrow>
     (\<forall>h \<in> set hits. 0 \<le> patch_id (snd h) \<and> patch_id (snd h) < int (length cps)) \<and>
     (\<forall>p \<in> set cps. set (nodes p) \<subseteq> keys hits)"

text \<open>
  The invariant of the loop over the contact patches: the records of the nodes in \<open>G\<close>
  are still there, and every boundary node has a record.
\<close>

definition bulldozed :: "ChVector2i set \<Rightarrow> SCMLoaderOld \<times> ChVector2i list \<Rightarrow> bool" where
  "bulldozed G acc \<longleftrightarrow>
     G \<subseteq> keys (m_grid_map (fst acc)) \<and> wf_loader (fst acc) \<and>
     set (snd acc) \<subseteq> keys (m_grid_map (fst acc))"

text \<open>The invariant of the dilation: every node of the erosion domain has a record.\<close>

definition dilated :: "SCMLoaderOld \<times> ChVector2i list \<times> ChVector2i list \<Rightarrow> bool" where
  "dilated acc \<longleftrightarrow>
     (case acc of (s, erosion_domain, erosion_front) \<Rightarrow>
        wf_loader s \<and> set erosion_domain \<subseteq> keys (m_grid_map s))"

section \<open>Concrete inputs\<close>

text \<open>
  A small flat terrain, colliders and environments at which the theorems below are
  evaluated. \<open>chrono_Normalize\<close> normalises a vector as the Chrono library does, with
  \<open>(1, 0, 0)\<close> for the null vector.
\<close>

definition chrono_Normalize :: "ChVector3d \<Rightarrow> ChVector3d" where
  "chrono_Normalize v =
     (if Vdot v v = 0 then ChVector3d 1 0 0 else vscale v (1 / sqrt (Vdot v v)))"

definition no_collider :: ext where
  "no_collider =
     \<lparr> std_pow = (\<lambda>x y. x powr y),
       GetNormalized = chrono_Normalize,
       Normalize = chrono_Normalize,
       IsInverted = (\<lambda>b. vx (aabb_min b) > vx (aabb_max b) \<and> vy (aabb_min b) > vy (aabb_max b)
                          \<and> vz (aabb_min b) > vz (aabb_max b)),
       ConvexHull2D = (\<lambda>pts. \<lparr>GetArea = 0, GetPerimeter = 0\<rparr>),
       RayHit = (\<lambda>from to. None),
       GetStep = 1 \<rparr>"

text \<open>A rigid plate (body 0) that moves along z with speed \<open>w\<close>.\<close>

definition plate :: "real \<Rightarrow> ChContactable" where
  "plate w =
     \<lparr> kind = IsBody 0,
       GetContactPointSpeed = (\<lambda>p. ChVector3d 0 0 w),
       GetUserData = None,
       GetPos = ChVector3d 0 0 1,
       ComputeUVfromP = (\<lambda>p. (0, 0)) \<rparr>"

text \<open>
  The collision system when the plate lies over the node \<open>(0, 0)\<close> with its lower face
  at height \<open>h\<close>: a vertical ray through that node hits the plate at height \<open>h\<close>.
\<close>

definition plate_over_origin :: "real \<Rightarrow> real \<Rightarrow> ext" where
  "plate_over_origin h w =
     no_collider\<lparr>RayHit := (\<lambda>from to. if vx to = 0 \<and> vy to = 0
                                        then Some (plate w, ChVector3d 0 0 h) else None)\<rparr>"

text \<open>
  A flat terrain of size 4 by 4 with unit spacing, soil parameters \<open>Kphi = 2\<close>, \<open>Kc = 0\<close>,
  \<open>n = 1\<close>, \<open>K = 4\<close>, no cohesion, no friction, damping \<open>R\<close>, and one active domain that
  covers the nodes \<open>(0, 0)\<close> and \<open>(1, 0)\<close>.
\<close>

definition two_nodes_domain :: ActiveDomainInfo where
  "two_nodes_domain =
     \<lparr> m_body_ParentToLocal = (\<lambda>v. v), m_center = ChVector3d 0 0 0,
       m_hdims = ChVector3d 0.1 0.1 0.1, m_range = [(0, 0), (1, 0)], m_ooN = VNULL \<rparr>"

definition small_terrain :: "real \<Rightarrow> SCMLoaderOld" where
  "small_terrain R =
     (Initialize_flat 4 4 1 (SetSoilParameters 2 0 1 0 0 1 4 R SCMLoaderOld_new))
       \<lparr>m_active_domains := [two_nodes_domain]\<rparr>"

definition heaped_node :: NodeRecord where
  "heaped_node = (NodeRecord_new 0 0 (ChVector3d 0 0 1))\<lparr>hit_level := 0, massremainder := 3\<rparr>"

text \<open>
  Four nodes that form one cell of a grid of spacing \<open>1/1000\<close>; the convex hull of their
  positions is a square of area \<open>10\<^sup>-\<^sup>6\<close> and perimeter \<open>4/1000\<close>.
\<close>

definition unit_square_hull :: ext where
  "unit_square_hull =
     no_collider\<lparr>ConvexHull2D := (\<lambda>pts. \<lparr>GetArea = 1 / 1000000, GetPerimeter = 4 / 1000\<rparr>)\<rparr>"

definition square_patch :: ContactPatchRecord where
  "square_patch =
     \<lparr> points = [(0, 0), (1 / 1000, 0), (0, 1 / 1000), (1 / 1000, 1 / 1000)],
       nodes = [(0, 0), (1, 0), (0, 1), (1, 1)],
       area = 0, perimeter = 0, oob = 0 \<rparr>"

definition two_hits :: HitMap where
  "two_hits =
     [((0, 0), \<lparr>contactable = plate 0, abs_point = ChVector3d 0 0 0, patch_id = - 1\<rparr>),
      ((1, 0), \<lparr>contactable = plate 0, abs_point = ChVector3d 1 0 0, patch_id = - 1\<rparr>)]"

definition inverted_box :: ChAABB where
  "inverted_box = \<lparr>aabb_min = ChVector3d 1 1 1, aabb_max = ChVector3d 0 0 0\<rparr>"

definition half_box :: ChAABB where
  "half_box = \<lparr>aabb_min = ChVector3d (- 1 / 2) (- 1 / 2) 0, aabb_max = ChVector3d (1 / 2) (1 / 2) 0\<rparr>"

lemmas step_eval =
  ComputeInternalForces_def contact_forces_def reset_step_def reset_node_def ray_casting_def
  ray_cast_domain_def cast_domain_def cast_ray_def small_terrain_def two_nodes_domain_def
  Initialize_flat_def
  SetSoilParameters_def SCMLoaderOld_new_def GetHeight_def GetInitHeight_def
  identity_frame_def plate_over_origin_def no_collider_def plate_def chrono_Normalize_def
  vadd_def vsub_def vscale_def map_insert_def insert_hit_node_def GetInitNormal_def
  NodeRecord_new_def find_contact_patches_def seed_patch_def flood_visit_def neighbors4_def
  cell_add_def patch_geometry_def Let_def process_hit_def soil_at_def elastic_try_def
  constitutive_update_def plastic_correction_def tangential_force_def accumulate_force_def
  Vdot_def vneg_def Vcross_def create_loads_def bulldozing_def CH_DEG_TO_RAD_def

section \<open>Supporting lemmas\<close>

subsection \<open>Loops\<close>

lemma fold_opt_invariant:
  assumes "fold_opt f xs s = Some s'" and "P s"
    and "\<And>x a b. x \<in> set xs \<Longrightarrow> P a \<Longrightarrow> f x a = Some b \<Longrightarrow> P b"
  shows "P s'"
  using assms
proof (induction xs arbitrary: s)
  case Nil
  then show ?case by simp
next
  case (Cons x xs)
  from Cons.prems(1) obtain a where fa: "f x s = Some a" and rest: "fold_opt f xs a = Some s'"
    by (auto split: option.splits)
  have "P a" using Cons.prems(3) [of x s a] Cons.prems(2) fa by simp
  moreover have "\<And>y a b. y \<in> set xs \<Longrightarrow> P a \<Longrightarrow> f y a = Some b \<Longrightarrow> P b"
    using Cons.prems(3) by (meson list.set_intros(2))
  ultimately show ?case using Cons.IH [OF rest] by blast
qed

lemma funpow_invariant:
  assumes "P x" and "\<And>y. P y \<Longrightarrow> P (f y)"
  shows "P ((f ^^ n) x)"
  using assms by (induction n) auto

subsection \<open>Relations between grids\<close>

lemma evolves_refl: "(\<And>nr. R nr nr) \<Longrightarrow> evolves R g g"
  by (auto simp: evolves_def grid_rel_def grid_from_def)

lemma evolves_trans:
  assumes "evolves R g1 g2" and "evolves R g2 g3"
    and "\<And>a b c. R a b \<Longrightarrow> R b c \<Longrightarrow> R a c"
  shows "evolves R g1 g3"
proof -
  have "grid_rel R g1 g3"
    using assms unfolding evolves_def grid_rel_def by blast
  moreover have "grid_from R g1 g3"
    unfolding grid_from_def
  proof (intro allI impI)
    fix ij nr3
    assume "map_of g3 ij = Some nr3"
    with assms(2) obtain nr2 where
      2: "map_of g2 ij = Some nr2 \<or> (\<exists>z n. nr2 = NodeRecord_new z z n)" and r23: "R nr2 nr3"
      unfolding evolves_def grid_from_def by blast
    from 2 show "\<exists>nr. (map_of g1 ij = Some nr \<or> (\<exists>z n. nr = NodeRecord_new z z n)) \<and> R nr nr3"
    proof
      assume "map_of g2 ij = Some nr2"
      with assms(1) obtain nr1 where
        "map_of g1 ij = Some nr1 \<or> (\<exists>z n. nr1 = NodeRecord_new z z n)" and "R nr1 nr2"
        unfolding evolves_def grid_from_def by blast
      with r23 assms(3) show ?thesis by blast
    next
      assume "\<exists>z n. nr2 = NodeRecord_new z z n"
      with r23 show ?thesis by blast
    qed
  qed
  ultimately show ?thesis by (simp add: evolves_def)
qed

lemma evolves_update:
  assumes "map_of g ij = Some nr" and "R nr nr'" and "\<And>a. R a a"
  shows "evolves R g (AList.update ij nr' g)"
  using assms by (auto simp: evolves_def grid_rel_def grid_from_def update_conv')

lemma evolves_append:
  assumes "map_of g ij = None" and "R (NodeRecord_new z z n) nr" and "\<And>a. R a a"
  shows "evolves R g (g @ [(ij, nr)])"
proof -
  have look: "map_of (g @ [(ij, nr)]) k = (if k = ij then Some nr else map_of g k)" for k
    using assms(1) by (auto simp: map_add_def split: option.splits)
  have "grid_rel R g (g @ [(ij, nr)])"
    using assms(1,3) by (auto simp: grid_rel_def look)
  moreover have "grid_from R g (g @ [(ij, nr)])"
    unfolding grid_from_def
  proof (intro allI impI)
    fix k nr'
    assume "map_of (g @ [(ij, nr)]) k = Some nr'"
    then have "(k = ij \<and> nr' = nr) \<or> map_of g k = Some nr'"
      by (auto simp: look split: if_splits)
    then show "\<exists>a. (map_of g k = Some a \<or> (\<exists>z n. a = NodeRecord_new z z n)) \<and> R a nr'"
      using assms(2,3) by blast
  qed
  ultimately show ?thesis by (simp add: evolves_def)
qed

lemma evolves_mono:
  "evolves R g g' \<Longrightarrow> (\<And>a b. R a b \<Longrightarrow> R' a b) \<Longrightarrow> evolves R' g g'"
  unfolding evolves_def grid_rel_def grid_from_def by blast

lemma soil_state_kept_refl: "soil_state_kept a a"
  by (simp add: soil_state_kept_def)

lemma soil_state_kept_sym: "soil_state_kept a b \<Longrightarrow> soil_state_kept b a"
  by (simp add: soil_state_kept_def)

lemma soil_state_kept_trans:
  "soil_state_kept a b \<Longrightarrow> soil_state_kept b c \<Longrightarrow> soil_state_kept a c"
  by (simp add: soil_state_kept_def)

lemma soil_state_kept_Add: "soil_state_kept a b \<Longrightarrow> soil_state_kept a (AddMaterialToNode d b)"
  by (simp add: soil_state_kept_def AddMaterialToNode_def Let_def)

lemma soil_state_kept_Remove:
  "soil_state_kept a b \<Longrightarrow> soil_state_kept a (RemoveMaterialFromNode d b)"
  by (simp add: soil_state_kept_def RemoveMaterialFromNode_def Let_def)

lemma soil_state_kept_erosion: "soil_state_kept a b \<Longrightarrow> soil_state_kept a (b\<lparr>erosion := e\<rparr>)"
  by (simp add: soil_state_kept_def)

lemma kept_refl: "kept g g"
  by (rule evolves_refl) (rule soil_state_kept_refl)

lemma kept_trans: "kept g1 g2 \<Longrightarrow> kept g2 g3 \<Longrightarrow> kept g1 g3"
  by (erule (1) evolves_trans) (rule soil_state_kept_trans)

lemma kept_update:
  "map_of g ij = Some nr \<Longrightarrow> soil_state_kept nr nr' \<Longrightarrow> kept g (AList.update ij nr' g)"
  by (rule evolves_update [where R = soil_state_kept]) (auto simp: soil_state_kept_refl)

lemma kept_append:
  "map_of g ij = None \<Longrightarrow> soil_state_kept (NodeRecord_new z z n) nr \<Longrightarrow>
   kept g (g @ [(ij, nr)])"
  by (rule evolves_append [where R = soil_state_kept]) (auto simp: soil_state_kept_refl)

lemma raise_node_kept: "kept (m_grid_map s) (m_grid_map (raise_node E diff ij s))"
  by (auto simp: raise_node_def Let_def split: option.splits
      intro!: kept_append kept_update soil_state_kept_refl
              soil_state_kept_Add soil_state_kept_erosion)

lemma raise_nodes_kept: "kept (m_grid_map s) (m_grid_map (fold (raise_node E diff) ijs s))"
proof (induction ijs arbitrary: s)
  case Nil
  show ?case by (simp add: kept_refl)
next
  case (Cons ij ijs)
  show ?case using kept_trans [OF raise_node_kept Cons.IH] by simp
qed

lemma raise_patch_boundary_kept:
  assumes "raise_patch_boundary E p acc = Some acc'"
  shows "kept (m_grid_map (fst acc)) (m_grid_map (fst acc'))"
  using assms raise_nodes_kept
  by (auto simp: raise_patch_boundary_def Let_def split: option.splits)

lemma dilate_neighbor_kept:
  "kept (m_grid_map (fst acc)) (m_grid_map (fst (dilate_neighbor E ij off acc)))"
  by (auto simp: dilate_neighbor_def Let_def kept_refl split: option.splits
      intro!: kept_append kept_update soil_state_kept_refl soil_state_kept_erosion)

lemma dilate_front_kept:
  "kept (m_grid_map (fst acc)) (m_grid_map (fst (dilate_front E acc)))"
proof -
  obtain s dom front where acc: "acc = (s, dom, front)" by (cases acc) auto
  have inner: "kept g (m_grid_map (fst a)) \<Longrightarrow>
        kept g (m_grid_map (fst (fold (dilate_neighbor E ij) offs a)))" for g a ij offs
  proof (induction offs arbitrary: a)
    case Nil
    then show ?case by simp
  next
    case (Cons off offs)
    show ?case
      using Cons.IH [OF kept_trans [OF Cons.prems dilate_neighbor_kept]] by simp
  qed
  have outer: "kept g (m_grid_map (fst a)) \<Longrightarrow>
        kept g (m_grid_map (fst (fold (\<lambda>ij. fold (dilate_neighbor E ij) neighbors4) ijs a)))"
    for g a ijs
  proof (induction ijs arbitrary: a)
    case Nil
    then show ?case by simp
  next
    case (Cons ij ijs)
    show ?case using Cons.IH [OF inner [OF Cons.prems]] by simp
  qed
  show ?thesis
    using outer [of "m_grid_map s" "(s, [])"]
    by (simp add: acc dilate_front_def Let_def kept_refl)
qed

lemma erode_pair_kept:
  "soil_state_kept a (fst pr) \<Longrightarrow> soil_state_kept b (snd pr) \<Longrightarrow>
   soil_state_kept a (fst (erode_pair dy_lim pr)) \<and> soil_state_kept b (snd (erode_pair dy_lim pr))"
  by (simp add: erode_pair_def Let_def soil_state_kept_Add soil_state_kept_Remove)

lemma erode_neighbor_kept:
  assumes "soil_state_kept a (fst acc)" and "kept g (snd acc)"
  shows "soil_state_kept a (fst (erode_neighbor dy_lim ij off acc)) \<and>
         kept g (snd (erode_neighbor dy_lim ij off acc))"
proof (cases "map_of (snd acc) (cell_add ij off)")
  case None
  then show ?thesis using assms by (simp add: erode_neighbor_def Let_def)
next
  case (Some nbr_nr)
  from erode_pair_kept [of a "(fst acc, nbr_nr)" nbr_nr dy_lim] assms(1)
  have p: "soil_state_kept a (fst (erode_pair dy_lim (fst acc, nbr_nr)))"
    and q: "soil_state_kept nbr_nr (snd (erode_pair dy_lim (fst acc, nbr_nr)))"
    by (simp_all add: soil_state_kept_refl)
  have "kept (snd acc) (AList.update (cell_add ij off) (snd (erode_pair dy_lim (fst acc, nbr_nr))) (snd acc))"
    by (rule kept_update [OF Some q])
  with assms(2) have "kept g (AList.update (cell_add ij off) (snd (erode_pair dy_lim (fst acc, nbr_nr))) (snd acc))"
    by (rule kept_trans)
  with p Some show ?thesis by (simp add: erode_neighbor_def Let_def)
qed

lemma erode_neighbors_kept:
  assumes "soil_state_kept a (fst acc)" and "kept g (snd acc)"
  shows "soil_state_kept a (fst (fold (erode_neighbor dy_lim ij) offs acc)) \<and>
         kept g (snd (fold (erode_neighbor dy_lim ij) offs acc))"
  using assms
proof (induction offs arbitrary: acc)
  case Nil
  then show ?case by simp
next
  case (Cons off offs)
  from erode_neighbor_kept [OF Cons.prems]
  have "soil_state_kept a (fst (erode_neighbor dy_lim ij off acc))"
    and "kept g (snd (erode_neighbor dy_lim ij off acc))" by simp_all
  from Cons.IH [OF this] show ?case by simp
qed

lemma erode_node_kept:
  assumes "erode_node dy_lim ij g = Some g'"
  shows "kept g g'"
proof -
  from assms obtain nr where nr: "map_of g ij = Some nr"
    and g': "g' = AList.update ij (fst (fold (erode_neighbor dy_lim ij) neighbors4 (nr, g)))
                     (snd (fold (erode_neighbor dy_lim ij) neighbors4 (nr, g)))"
    by (auto simp: erode_node_def Let_def split: option.splits)
  let ?r = "fold (erode_neighbor dy_lim ij) neighbors4 (nr, g)"
  from erode_neighbors_kept [of nr "(nr, g)" g dy_lim ij neighbors4]
  have a: "soil_state_kept nr (fst ?r)" and b: "kept g (snd ?r)"
    by (simp_all add: soil_state_kept_refl kept_refl)
  from b nr obtain n' where n': "map_of (snd ?r) ij = Some n'" "soil_state_kept nr n'"
    unfolding evolves_def grid_rel_def by blast
  from n'(2) a have "soil_state_kept n' (fst ?r)"
    by (blast intro: soil_state_kept_sym soil_state_kept_trans)
  from kept_update [OF n'(1) this] b show ?thesis
    unfolding g' by (blast intro: kept_trans)
qed

lemma bulldozing_kept:
  assumes "bulldozing E contact_patches s = Some s'"
  shows "kept (m_grid_map s) (m_grid_map s')"
proof (cases "m_bulldozing s")
  case False
  with assms show ?thesis by (auto simp: bulldozing_def Let_def kept_refl)
next
  case True
  let ?s0 = "s\<lparr>m_num_erosion_nodes := 0\<rparr>"
  from assms True obtain sb where
    sb: "fold_opt (raise_patch_boundary E) contact_patches (?s0, []) = Some sb"
    by (auto simp: bulldozing_def Let_def split: option.splits)
  obtain s2 dom front where
    dil: "(dilate_front E ^^ nat (m_erosion_propagations (fst sb))) (fst sb, snd sb, snd sb)
            = (s2, dom, front)"
    by (cases "(dilate_front E ^^ nat (m_erosion_propagations (fst sb))) (fst sb, snd sb, snd sb)")
       auto
  let ?s3 = "s2\<lparr>m_num_erosion_nodes := int (length dom)\<rparr>"
  from assms True sb dil obtain g where
    er: "fold_opt (erode_node (m_delta s * m_erosion_slope s))
           (concat (replicate (nat (m_erosion_iterations ?s3)) dom)) (m_grid_map ?s3) = Some g"
    and s': "s' = ?s3\<lparr>m_grid_map := g\<rparr>"
    by (auto simp: bulldozing_def Let_def split: option.splits)
  have 1: "kept (m_grid_map s) (m_grid_map (fst sb))"
    by (rule fold_opt_invariant [OF sb, where P = "\<lambda>a. kept (m_grid_map s) (m_grid_map (fst a))"])
       (auto simp: kept_refl intro: kept_trans raise_patch_boundary_kept)
  have 2: "kept (m_grid_map s) (m_grid_map (fst ((dilate_front E ^^ n) (fst sb, snd sb, snd sb))))"
    for n
    by (rule funpow_invariant [where P = "\<lambda>a. kept (m_grid_map s) (m_grid_map (fst a))"])
       (auto simp: 1 intro: kept_trans dilate_front_kept)
  from 2 [of "nat (m_erosion_propagations (fst sb))"] dil
  have 3: "kept (m_grid_map s) (m_grid_map s2)" by simp
  have 4: "kept (m_grid_map s) g"
    by (rule fold_opt_invariant [OF er, where P = "\<lambda>a. kept (m_grid_map s) a"])
       (auto simp: 3 intro: kept_trans erode_node_kept)
  then show ?thesis by (simp add: s')
qed


subsection \<open>Frame facts\<close>

lemma accumulate_force_grid [simp]:
  "m_grid_map (accumulate_force c pt Fn Ft s) = m_grid_map s"
  "m_modified_nodes (accumulate_force c pt Fn Ft s) = m_modified_nodes s"
  by (auto simp: accumulate_force_def add_node_force_def Let_def
      split: ContactableKind.splits option.splits)

lemma create_loads_grid [simp]:
  "m_grid_map (create_loads s) = m_grid_map s"
  "m_modified_nodes (create_loads s) = m_modified_nodes s"
  by (simp_all add: create_loads_def)

lemma insert_hit_nodes_modified [simp]:
  "m_modified_nodes (fold (insert_hit_node E) ijs s) = m_modified_nodes s"
  by (induction ijs arbitrary: s) (simp_all add: insert_hit_node_def Let_def)

lemma ray_cast_domain_modified:
  "m_modified_nodes (fst (ray_cast_domain E p acc)) = m_modified_nodes (fst acc)"
  by (cases acc) (simp add: ray_cast_domain_def Let_def split: prod.splits)

lemma ray_casting_modified [simp]:
  "m_modified_nodes (fst (ray_casting E s)) = m_modified_nodes s"
proof -
  have "m_modified_nodes (fst (fold (ray_cast_domain E) ps acc)) = m_modified_nodes (fst acc)"
    for ps acc
    by (induction ps arbitrary: acc) (simp_all add: ray_cast_domain_modified)
  then show ?thesis by (simp add: ray_casting_def)
qed

lemma reset_step_modified:
  "reset_step s = Some s1 \<Longrightarrow> m_modified_nodes s1 = []"
  by (auto simp: reset_step_def split: option.splits)

subsection \<open>Decomposition of the sinkage\<close>

lemma constitutive_update_decomposed:
  "decomposed (constitutive_update E P patch_oob p_hit_offset Vn Vt nr)"
  by (simp add: constitutive_update_def decomposed_def Let_def)

lemma process_hit_decomposed:
  assumes "process_hit E contact_patches h s = Some s'" and "modified_decomposed s"
  shows "modified_decomposed s'"
proof -
  from assms(1) obtain nr where nr: "map_of (m_grid_map s) (fst h) = Some nr"
    by (auto simp: process_hit_def Let_def split: option.splits)
  let ?loc = "TransformPointParentToLocal (m_frame s) (abs_point (snd h))"
  let ?P = "soil_at s ?loc"
  let ?nr1 = "fst (elastic_try ?P (vz ?loc) nr)"
  show ?thesis
  proof (cases "sigma ?nr1 < 0")
    case True
    with assms(1) nr
    have s': "s' = s\<lparr>m_grid_map := AList.update (fst h) (?nr1\<lparr>sigma := 0\<rparr>) (m_grid_map s)\<rparr>"
      by (simp add: process_hit_def Let_def)
    have "decomposed nr \<Longrightarrow> decomposed (?nr1\<lparr>sigma := 0\<rparr>)"
      by (simp add: decomposed_def elastic_try_def Let_def)
    with assms(2) nr show ?thesis
      by (auto simp: modified_decomposed_def s' update_conv')
  next
    case False
    with assms(1) nr obtain nr8 s2 where
      s': "s' = s2\<lparr>m_grid_map := AList.update (fst h) nr8 (m_grid_map s2)\<rparr>"
      and g2: "m_grid_map s2 = m_grid_map s"
      and m2: "m_modified_nodes s2 = m_modified_nodes s @ [fst h]"
      and d8: "decomposed nr8"
      by (auto simp: process_hit_def Let_def decomposed_def constitutive_update_def
          split: if_splits)
    with assms(2) show ?thesis
      by (auto simp: modified_decomposed_def update_conv')
  qed
qed

lemma contact_forces_decomposed:
  assumes "contact_forces E sh = Some sp" and "m_modified_nodes (fst sh) = []"
  shows "modified_decomposed (fst sp)"
proof -
  from assms(1) obtain hp s4 where
    loop: "fold_opt (process_hit E (snd hp)) (fst hp)
             ((fst sh)\<lparr>m_num_contact_patches := int (length (snd hp))\<rparr>) = Some s4"
    and sp: "sp = (create_loads s4, snd hp)"
    by (auto simp: contact_forces_def Let_def split: option.splits)
  have "modified_decomposed s4"
    by (rule fold_opt_invariant [OF loop, where P = modified_decomposed])
       (auto simp: assms(2) modified_decomposed_def [of "_\<lparr>m_num_contact_patches := _\<rparr>"]
             intro: process_hit_decomposed)
  then show ?thesis by (simp add: sp modified_decomposed_def)
qed

lemma config_updates [simp]:
  "config (s\<lparr>m_grid_map := g\<rparr>) = config s"
  "config (s\<lparr>m_modified_nodes := m\<rparr>) = config s"
  "config (s\<lparr>m_body_forces := bf\<rparr>) = config s"
  "config (s\<lparr>m_node_forces := nf\<rparr>) = config s"
  "config (s\<lparr>load_list := l\<rparr>) = config s"
  "config (s\<lparr>m_num_ray_casts := i\<rparr>) = config s"
  "config (s\<lparr>m_num_ray_hits := i\<rparr>) = config s"
  "config (s\<lparr>m_num_contact_patches := i\<rparr>) = config s"
  "config (s\<lparr>m_num_erosion_nodes := i\<rparr>) = config s"
  by (simp_all add: config_def)

lemma config_fields:
  assumes "config s' = config s"
  shows "m_soil_fun s' = m_soil_fun s" "m_Bekker_Kphi s' = m_Bekker_Kphi s"
    "m_Bekker_Kc s' = m_Bekker_Kc s" "m_Bekker_n s' = m_Bekker_n s"
    "m_elastic_K s' = m_elastic_K s" "m_bulldozing s' = m_bulldozing s"
    "m_frame s' = m_frame s" "m_delta s' = m_delta s" "m_type s' = m_type s"
    "m_Mohr_cohesion s' = m_Mohr_cohesion s" "m_Mohr_mu s' = m_Mohr_mu s" 
    "m_Janosi_shear s' = m_Janosi_shear s" "m_damping_R s' = m_damping_R s"
    "m_nx s' = m_nx s" "m_ny s' = m_ny s" "m_heights s' = m_heights s"
proof -
  have "f (config s') = f (config s)" for f :: "SCMLoaderOld \<Rightarrow> 'a"
    using assms by simp
  note * = this
  show "m_soil_fun s' = m_soil_fun s" using * [of m_soil_fun] by (simp add: config_def)
  show "m_Bekker_Kphi s' = m_Bekker_Kphi s" using * [of m_Bekker_Kphi] by (simp add: config_def)
  show "m_Bekker_Kc s' = m_Bekker_Kc s" using * [of m_Bekker_Kc] by (simp add: config_def)
  show "m_Bekker_n s' = m_Bekker_n s" using * [of m_Bekker_n] by (simp add: config_def)
  show "m_elastic_K s' = m_elastic_K s" using * [of m_elastic_K] by (simp add: config_def)
  show "m_bulldozing s' = m_bulldozing s" using * [of m_bulldozing] by (simp add: config_def)
  show "m_frame s' = m_frame s" using * [of m_frame] by (simp add: config_def)
  show "m_delta s' = m_delta s" using * [of m_delta] by (simp add: config_def)
  show "m_type s' = m_type s" using * [of m_type] by (simp add: config_def)
  show "m_Mohr_cohesion s' = m_Mohr_cohesion s" using * [of m_Mohr_cohesion] by (simp add: config_def)
  show "m_Mohr_mu s' = m_Mohr_mu s" using * [of m_Mohr_mu] by (simp add: config_def)
  show "m_Janosi_shear s' = m_Janosi_shear s" using * [of m_Janosi_shear] by (simp add: config_def)
  show "m_damping_R s' = m_damping_R s" using * [of m_damping_R] by (simp add: config_def)
  show "m_nx s' = m_nx s" using * [of m_nx] by (simp add: config_def)
  show "m_ny s' = m_ny s" using * [of m_ny] by (simp add: config_def)
  show "m_heights s' = m_heights s" using * [of m_heights] by (simp add: config_def)
qed

lemma config_add_node_force [simp]: "config (add_node_force nw force s) = config s"
  by (auto simp: add_node_force_def Let_def split: option.splits)

lemma config_accumulate_force [simp]: "config (accumulate_force c pt Fn Ft s) = config s"
  by (auto simp: accumulate_force_def Let_def split: ContactableKind.splits option.splits)

lemma config_create_loads [simp]: "config (create_loads s) = config s"
  by (simp add: create_loads_def)

lemma config_process_hit: "process_hit E ps h s = Some s' \<Longrightarrow> config s' = config s"
  by (auto simp: process_hit_def Let_def split: option.splits if_splits)

lemma config_reset_step: "reset_step s = Some s' \<Longrightarrow> config s' = config s"
proof -
  have "fold_opt reset_node ijs s = Some a \<Longrightarrow> config a = config s" for ijs a
    by (erule fold_opt_invariant [where P = "\<lambda>a. config a = config s"])
       (auto simp: reset_node_def split: option.splits)
  then show "reset_step s = Some s' \<Longrightarrow> config s' = config s"
    by (auto simp: reset_step_def split: option.splits)
qed

lemma config_ray_casting [simp]: "config (fst (ray_casting E s)) = config s"
proof -
  have ins: "config (fold (insert_hit_node E) ijs a) = config a" for ijs a
    by (induction ijs arbitrary: a) (simp_all add: insert_hit_node_def Let_def)
  have dom: "config (fst (ray_cast_domain E p acc)) = config (fst acc)" for p acc
    by (cases acc) (simp add: ray_cast_domain_def Let_def ins split: prod.splits)
  have "config (fst (fold (ray_cast_domain E) ps acc)) = config (fst acc)" for ps acc
    by (induction ps arbitrary: acc) (simp_all add: dom)
  then show ?thesis by (simp add: ray_casting_def)
qed

lemma config_contact_forces:
  assumes "contact_forces E sh = Some sp"
  shows "config (fst sp) = config (fst sh)"
proof -
  from assms obtain hp s4 where
    loop: "fold_opt (process_hit E (snd hp)) (fst hp)
             ((fst sh)\<lparr>m_num_contact_patches := int (length (snd hp))\<rparr>) = Some s4"
    and sp: "sp = (create_loads s4, snd hp)"
    by (auto simp: contact_forces_def Let_def split: option.splits)
  have "config s4 = config (fst sh)"
    by (rule fold_opt_invariant [OF loop, where P = "\<lambda>a. config a = config (fst sh)"])
       (auto dest: config_process_hit)
  then show ?thesis by (simp add: sp)
qed

lemma config_raise_node [simp]: "config (raise_node E diff ij s) = config s"
  by (auto simp: raise_node_def Let_def split: option.splits)

lemma config_raise_nodes [simp]: "config (fold (raise_node E diff) ijs s) = config s"
  by (induction ijs arbitrary: s) simp_all

lemma config_raise_patch_boundary:
  "raise_patch_boundary E p acc = Some acc' \<Longrightarrow> config (fst acc') = config (fst acc)"
  by (auto simp: raise_patch_boundary_def Let_def split: option.splits)

lemma config_dilate_neighbor [simp]:
  "config (fst (dilate_neighbor E ij off acc)) = config (fst acc)"
  by (auto simp: dilate_neighbor_def Let_def split: option.splits)

lemma config_dilate_front [simp]: "config (fst (dilate_front E acc)) = config (fst acc)"
proof -
  obtain s dom front where acc: "acc = (s, dom, front)" by (cases acc) auto
  have inner: "config (fst (fold (dilate_neighbor E ij) offs a)) = config (fst a)" for ij offs a
    by (induction offs arbitrary: a) simp_all
  have "config (fst (fold (\<lambda>ij. fold (dilate_neighbor E ij) neighbors4) ijs a)) = config (fst a)"
    for ijs a
    by (induction ijs arbitrary: a) (simp_all add: inner)
  then show ?thesis by (simp add: acc dilate_front_def Let_def)
qed

lemma config_bulldozing:
  assumes "bulldozing E contact_patches s = Some s'"
  shows "config s' = config s"
proof (cases "m_bulldozing s")
  case False
  with assms show ?thesis by (auto simp: bulldozing_def Let_def)
next
  case True
  let ?s0 = "s\<lparr>m_num_erosion_nodes := 0\<rparr>"
  from assms True obtain sb where
    sb: "fold_opt (raise_patch_boundary E) contact_patches (?s0, []) = Some sb"
    by (auto simp: bulldozing_def Let_def split: option.splits)
  obtain s2 dom front where
    dil: "(dilate_front E ^^ nat (m_erosion_propagations (fst sb))) (fst sb, snd sb, snd sb)
            = (s2, dom, front)"
    by (cases "(dilate_front E ^^ nat (m_erosion_propagations (fst sb))) (fst sb, snd sb, snd sb)")
       auto
  from assms True sb dil obtain g where
    s': "s' = s2\<lparr>m_num_erosion_nodes := int (length dom), m_grid_map := g\<rparr>"
    by (auto simp: bulldozing_def Let_def split: option.splits)
  have 1: "config (fst sb) = config s"
    by (rule fold_opt_invariant [OF sb, where P = "\<lambda>a. config (fst a) = config s"])
       (auto dest: config_raise_patch_boundary)
  have "config (fst ((dilate_front E ^^ n) (fst sb, snd sb, snd sb))) = config s" for n
    by (rule funpow_invariant [where P = "\<lambda>a. config (fst a) = config s"]) (simp_all add: 1)
  from this [of "nat (m_erosion_propagations (fst sb))"] dil
  have "config s2 = config s" by simp
  then show ?thesis by (simp add: s')
qed

lemma config_step:
  assumes "ComputeInternalForces E s = Some s'"
  shows "config s' = config s"
proof -
  from assms obtain s1 sp where
    r: "reset_step s = Some s1"
    and c: "contact_forces E (ray_casting E s1) = Some sp"
    and b: "bulldozing E (snd sp) (fst sp) = Some s'"
    by (auto simp: ComputeInternalForces_def split: option.splits)
  from config_bulldozing [OF b] config_contact_forces [OF c] config_reset_step [OF r]
  show ?thesis by simp
qed

subsection \<open>Hardening of the yield pressure\<close>

lemma hardens_refl: "hardens pw Kphi n K a a"
  by (simp add: hardens_def)

lemma hardens_trans:
  "hardens pw Kphi n K a b \<Longrightarrow> hardens pw Kphi n K b c \<Longrightarrow> hardens pw Kphi n K a c"
  by (auto simp: hardens_def)

lemma same_yield_hardens:
  "sigma_yield b = sigma_yield a \<Longrightarrow> sinkage_plastic b = sinkage_plastic a \<Longrightarrow>
   hardens pw Kphi n K a b"
  by (simp add: hardens_def yield_hardened_def)

lemma yield_hardened_new: "yield_hardened pw Kphi n K (NodeRecord_new z l nrm)"
  by (simp add: yield_hardened_def NodeRecord_new_def)

lemma constitutive_update_hardens:
  assumes K: "0 < elastic_K P" and Kphi: "0 \<le> Bekker_Kphi P" and Kc: "Bekker_Kc P = 0"
    and mono: "\<And>x y. 0 < x \<Longrightarrow> x \<le> y \<Longrightarrow> std_pow E x (Bekker_n P) \<le> std_pow E y (Bekker_n P)"
    and nonneg: "\<And>x. 0 < x \<Longrightarrow> 0 \<le> std_pow E x (Bekker_n P)"
    and sig: "sigma nr = elastic_K P * (p - sinkage_plastic nr)"
  shows "hardens (std_pow E) (Bekker_Kphi P) (Bekker_n P) (elastic_K P) nr
           (constitutive_update E P patch_oob p Vn Vt nr)"
proof (cases "sigma nr > sigma_yield nr")
  case False
  then show ?thesis
    by (intro same_yield_hardens) (simp_all add: constitutive_update_def Let_def)
next
  case True
  let ?Y = "Bekker_Kphi P * std_pow E p (Bekker_n P)"
  let ?nr' = "constitutive_update E P patch_oob p Vn Vt nr"
  have y': "sigma_yield ?nr' = ?Y"
    and sp': "sinkage_plastic ?nr' = p - ?Y / elastic_K P"
    using True Kc by (simp_all add: constitutive_update_def plastic_correction_def Let_def)
  show ?thesis
    unfolding hardens_def
  proof
    assume "yield_hardened (std_pow E) (Bekker_Kphi P) (Bekker_n P) (elastic_K P) nr"
    then consider (fresh) "sigma_yield nr = 0" "sinkage_plastic nr = 0"
      | (hard) s0 where "0 < s0" "sigma_yield nr = Bekker_Kphi P * std_pow E s0 (Bekker_n P)"
          "sinkage_plastic nr = s0 - sigma_yield nr / elastic_K P"
      unfolding yield_hardened_def by blast
    then have "0 < p \<and> sigma_yield nr \<le> ?Y"
    proof cases
      case fresh
      with True sig have "0 < elastic_K P * p" by simp
      with K have "0 < p" by (simp add: zero_less_mult_iff)
      moreover from this nonneg Kphi have "0 \<le> ?Y" by simp
      ultimately show ?thesis using fresh by simp
    next
      case hard
      have "elastic_K P * (p - (s0 - sigma_yield nr / elastic_K P))
              = elastic_K P * (p - s0) + sigma_yield nr"
        using K by (simp add: field_simps)
      with True sig hard(3) have "0 < elastic_K P * (p - s0)" by simp
      with K have "s0 < p" by (simp add: zero_less_mult_iff)
      with hard(1) mono [of s0 p] have "0 < p"
        and "std_pow E s0 (Bekker_n P) \<le> std_pow E p (Bekker_n P)" by simp_all
      with Kphi hard(2) show ?thesis by (simp add: mult_left_mono)
    qed
    then show "yield_hardened (std_pow E) (Bekker_Kphi P) (Bekker_n P) (elastic_K P) ?nr'
               \<and> sigma_yield nr \<le> sigma_yield ?nr'"
      unfolding yield_hardened_def y' sp' by auto
  qed
qed

lemma hardening_soil_config:
  assumes "config s' = config s"
  shows "hardening_soil pw s' = hardening_soil pw s"
  using config_fields [OF assms] by (simp add: hardening_soil_def)

lemma hardens_in_config:
  assumes "config s' = config s"
  shows "hardens_in pw s' = hardens_in pw s"
  using config_fields [OF assms] by simp

lemma evolves_hardens_update:
  "map_of g ij = Some nr \<Longrightarrow> hardens pw Kphi n K nr nr' \<Longrightarrow>
   evolves (hardens pw Kphi n K) g (AList.update ij nr' g)"
  by (rule evolves_update [where R = "hardens pw Kphi n K"]) (auto simp: hardens_refl)

lemma evolves_hardens_append:
  "map_of g ij = None \<Longrightarrow> evolves (hardens pw Kphi n K) g (g @ [(ij, NodeRecord_new z z nrm)])"
  by (rule evolves_append [where R = "hardens pw Kphi n K" and z = z and n = nrm])
     (auto simp: hardens_refl)

lemma evolves_hardens_refl: "evolves (hardens pw Kphi n K) g g"
  by (rule evolves_refl) (rule hardens_refl)

lemma evolves_hardens_trans:
  "evolves (hardens pw Kphi n K) g1 g2 \<Longrightarrow> evolves (hardens pw Kphi n K) g2 g3 \<Longrightarrow>
   evolves (hardens pw Kphi n K) g1 g3"
  by (erule (1) evolves_trans) (rule hardens_trans)

lemma reset_node_hardens:
  "reset_node ij a = Some b \<Longrightarrow> evolves (hardens pw Kphi n K) (m_grid_map a) (m_grid_map b)"
  by (auto simp: reset_node_def split: option.splits
      intro!: evolves_hardens_update same_yield_hardens)

lemma reset_step_hardens:
  assumes "reset_step s = Some s1"
  shows "evolves (hardens pw Kphi n K) (m_grid_map s) (m_grid_map s1)"
proof -
  from assms obtain a where a: "fold_opt reset_node (m_modified_nodes s) s = Some a"
    and g: "m_grid_map s1 = m_grid_map a"
    by (auto simp: reset_step_def split: option.splits)
  have "evolves (hardens pw Kphi n K) (m_grid_map s) (m_grid_map a)"
    by (rule fold_opt_invariant [OF a,
          where P = "\<lambda>a. evolves (hardens pw Kphi n K) (m_grid_map s) (m_grid_map a)"])
       (auto simp: evolves_hardens_refl intro: evolves_hardens_trans reset_node_hardens)
  then show ?thesis by (simp add: g)
qed

lemma insert_hit_node_hardens:
  "evolves (hardens pw Kphi n K) (m_grid_map s) (m_grid_map (insert_hit_node E ij s))"
  by (auto simp: insert_hit_node_def Let_def evolves_hardens_refl intro: evolves_hardens_append)

lemma ray_casting_hardens:
  "evolves (hardens pw Kphi n K) (m_grid_map s) (m_grid_map (fst (ray_casting E s)))"
proof -
  let ?ev = "evolves (hardens pw Kphi n K)"
  have ins: "?ev g (m_grid_map a) \<Longrightarrow> ?ev g (m_grid_map (fold (insert_hit_node E) ijs a))"
    for g a ijs
  proof (induction ijs arbitrary: a)
    case Nil
    then show ?case by simp
  next
    case (Cons ij ijs)
    show ?case
      using Cons.IH [OF evolves_hardens_trans [OF Cons.prems insert_hit_node_hardens]] by simp
  qed
  have dom: "?ev g (m_grid_map (fst (ray_cast_domain E p acc)))"
    if "?ev g (m_grid_map (fst acc))" for g acc p
  proof -
    obtain a b where acc: "acc = (a, b)" by (cases acc) auto
    obtain c th where cd: "cast_domain E a p = (c, th)" by (cases "cast_domain E a p") auto
    from that have "?ev g (m_grid_map (a\<lparr>m_num_ray_casts := m_num_ray_casts a + c\<rparr>))"
      by (simp add: acc)
    from ins [OF this, of "map fst th"] show ?thesis
      by (simp add: acc cd ray_cast_domain_def Let_def)
  qed
  have "?ev g (m_grid_map (fst acc)) \<Longrightarrow> ?ev g (m_grid_map (fst (fold (ray_cast_domain E) ps acc)))"
    for g acc ps
  proof (induction ps arbitrary: acc)
    case Nil
    then show ?case by simp
  next
    case (Cons p ps)
    show ?case using Cons.IH [OF dom [OF Cons.prems]] by simp
  qed
  from this [of "m_grid_map s" "(s\<lparr>m_num_ray_casts := 0, m_num_ray_hits := 0\<rparr>, [])"]
  show ?thesis by (simp add: ray_casting_def evolves_hardens_refl)
qed

text \<open>The two ways in which the body of the loop over the hit nodes ends normally.\<close>

lemma process_hit_cases:
  assumes "process_hit E contact_patches h s = Some s'"
  obtains
    (clamped) nr where
      "map_of (m_grid_map s) (fst h) = Some nr"
      "sigma (fst (elastic_try (soil_at s (TransformPointParentToLocal (m_frame s) (abs_point (snd h))))
                     (vz (TransformPointParentToLocal (m_frame s) (abs_point (snd h)))) nr)) < 0"
      "s' = s\<lparr>m_grid_map := AList.update (fst h)
                 ((fst (elastic_try (soil_at s (TransformPointParentToLocal (m_frame s) (abs_point (snd h))))
                     (vz (TransformPointParentToLocal (m_frame s) (abs_point (snd h)))) nr))\<lparr>sigma := 0\<rparr>)
                 (m_grid_map s)\<rparr>"
  | (contact) nr Vn Vt patch_oob s2 where
      "map_of (m_grid_map s) (fst h) = Some nr"
      "\<not> sigma (fst (elastic_try (soil_at s (TransformPointParentToLocal (m_frame s) (abs_point (snd h))))
                     (vz (TransformPointParentToLocal (m_frame s) (abs_point (snd h)))) nr)) < 0"
      "config s2 = config s"
      "m_grid_map s2 = m_grid_map s"
      "m_modified_nodes s2 = m_modified_nodes s @ [fst h]"
      "s' = s2\<lparr>m_grid_map := AList.update (fst h)
                  ((constitutive_update E
                      (soil_at s (TransformPointParentToLocal (m_frame s) (abs_point (snd h))))
                      patch_oob
                      (snd (elastic_try (soil_at s (TransformPointParentToLocal (m_frame s) (abs_point (snd h))))
                         (vz (TransformPointParentToLocal (m_frame s) (abs_point (snd h)))) nr))
                      Vn Vt
                      (fst (elastic_try (soil_at s (TransformPointParentToLocal (m_frame s) (abs_point (snd h))))
                         (vz (TransformPointParentToLocal (m_frame s) (abs_point (snd h)))) nr)))
                    \<lparr>level := level_initial nr
                       - snd (elastic_try (soil_at s (TransformPointParentToLocal (m_frame s) (abs_point (snd h))))
                                (vz (TransformPointParentToLocal (m_frame s) (abs_point (snd h)))) nr)
                         / vz (normal nr)\<rparr>)
                  (m_grid_map s)\<rparr>"
proof -
  let ?loc = "TransformPointParentToLocal (m_frame s) (abs_point (snd h))"
  let ?P = "soil_at s ?loc"
  from assms obtain nr where nr: "map_of (m_grid_map s) (fst h) = Some nr"
    by (auto simp: process_hit_def Let_def split: option.splits)
  let ?nr1 = "fst (elastic_try ?P (vz ?loc) nr)"
  let ?p = "snd (elastic_try ?P (vz ?loc) nr)"
  show thesis
  proof (cases "sigma ?nr1 < 0")
    case True
    with assms nr
    have "s' = s\<lparr>m_grid_map := AList.update (fst h) (?nr1\<lparr>sigma := 0\<rparr>) (m_grid_map s)\<rparr>"
      by (simp add: process_hit_def Let_def)
    with nr True show thesis by (rule clamped)
  next
    case False
    let ?ij = "fst h"
    let ?c = "contactable (snd h)"
    let ?s1 = "s\<lparr>m_modified_nodes := m_modified_nodes s @ [?ij]\<rparr>"
    let ?point_abs = "TransformPointLocalToParent (m_frame s)
        (ChVector3d (real_of_int (fst ?ij) * m_delta s) (real_of_int (snd ?ij) * m_delta s)
           (level ?nr1))"
    let ?speed = "GetContactPointSpeed ?c ?point_abs"
    let ?N = "TransformDirectionLocalToParent (m_frame s) (normal ?nr1)"
    let ?Vn = "Vdot ?speed ?N"
    let ?T = "Normalize E (vneg (vsub ?speed (vscale ?N ?Vn)))"
    let ?Vt = "Vdot ?speed (vneg ?T)"
    let ?oob = "oob (contact_patches ! nat (patch_id (snd h)))"
    let ?nr7 = "constitutive_update E ?P ?oob ?p ?Vn ?Vt ?nr1"
    let ?s2 = "accumulate_force ?c ?point_abs (vscale (vscale ?N (m_area s)) (sigma ?nr7))
                 (tangential_force s ?c ?T ?nr7) ?s1"
    have li: "level_initial ?nr7 = level_initial nr" and si: "sinkage ?nr7 = ?p"
      by (simp_all add: constitutive_update_def plastic_correction_def elastic_try_def Let_def)
    from assms nr False
    have "s' = ?s2\<lparr>m_grid_map := AList.update ?ij
                 (?nr7\<lparr>level := level_initial ?nr7 - sinkage ?nr7 / vz (normal nr)\<rparr>)
                 (m_grid_map ?s2)\<rparr>"
      by (simp add: process_hit_def Let_def split: if_splits)
    then have "s' = ?s2\<lparr>m_grid_map := AList.update ?ij
                 (?nr7\<lparr>level := level_initial nr - ?p / vz (normal nr)\<rparr>) (m_grid_map s)\<rparr>"
      by (simp only: li si accumulate_force_grid) simp
    moreover have "config ?s2 = config s" "m_grid_map ?s2 = m_grid_map s"
      "m_modified_nodes ?s2 = m_modified_nodes s @ [?ij]"
      by simp_all
    ultimately show thesis using nr False by (intro contact [of nr ?s2 ?oob ?Vn ?Vt]) auto
  qed
qed

lemma process_hit_hardens:
  assumes ph: "process_hit E contact_patches h s = Some s'"
    and soil: "hardening_soil (std_pow E) s"
  shows "evolves (hardens_in (std_pow E) s) (m_grid_map s) (m_grid_map s')"
proof -
  let ?loc = "TransformPointParentToLocal (m_frame s) (abs_point (snd h))"
  let ?P = "soil_at s ?loc"
  from soil have P: "elastic_K ?P = m_elastic_K s" "Bekker_Kphi ?P = m_Bekker_Kphi s"
    "Bekker_n ?P = m_Bekker_n s" "Bekker_Kc ?P = 0"
    by (simp_all add: hardening_soil_def soil_at_def)
  have h1: "hardens_in (std_pow E) s nr (fst (elastic_try ?P (vz ?loc) nr))"
    "hardens_in (std_pow E) s nr ((fst (elastic_try ?P (vz ?loc) nr))\<lparr>sigma := 0\<rparr>)" for nr
    by (rule same_yield_hardens; simp add: elastic_try_def Let_def)+
  from ph show ?thesis
  proof (cases rule: process_hit_cases)
    case (clamped nr)
    show ?thesis
      unfolding clamped(3) using evolves_hardens_update [OF clamped(1) h1(2)] by simp
  next
    case (contact nr Vn Vt patch_oob s2)
    let ?nr1 = "fst (elastic_try ?P (vz ?loc) nr)"
    let ?p = "snd (elastic_try ?P (vz ?loc) nr)"
    let ?nr7 = "constitutive_update E ?P patch_oob ?p Vn Vt ?nr1"
    have sig: "sigma ?nr1 = elastic_K ?P * (?p - sinkage_plastic ?nr1)"
      by (simp add: elastic_try_def Let_def)
    have "hardens (std_pow E) (Bekker_Kphi ?P) (Bekker_n ?P) (elastic_K ?P) ?nr1 ?nr7"
      using soil by (intro constitutive_update_hardens [OF _ _ _ _ _ sig])
                    (simp_all add: P hardening_soil_def)
    then have "hardens_in (std_pow E) s ?nr1 ?nr7" by (simp add: P)
    moreover have "hardens_in (std_pow E) s ?nr7 (?nr7\<lparr>level := l\<rparr>)" for l
      by (rule same_yield_hardens) simp_all
    ultimately have "hardens_in (std_pow E) s nr (?nr7\<lparr>level := l\<rparr>)" for l
      using h1(1) [of nr] by (blast intro: hardens_trans)
    from evolves_hardens_update [OF contact(1) this] show ?thesis
      unfolding contact(6) by simp
  qed
qed

lemma contact_forces_hardens:
  assumes cf: "contact_forces E sh = Some sp"
    and soil: "hardening_soil (std_pow E) (fst sh)"
  shows "evolves (hardens_in (std_pow E) (fst sh)) (m_grid_map (fst sh)) (m_grid_map (fst sp))"
proof -
  let ?H = "hardens_in (std_pow E) (fst sh)"
  from cf obtain hp s4 where
    loop: "fold_opt (process_hit E (snd hp)) (fst hp)
             ((fst sh)\<lparr>m_num_contact_patches := int (length (snd hp))\<rparr>) = Some s4"
    and sp: "sp = (create_loads s4, snd hp)"
    by (auto simp: contact_forces_def Let_def split: option.splits)
  have "config s4 = config (fst sh) \<and> evolves ?H (m_grid_map (fst sh)) (m_grid_map s4)"
  proof (rule fold_opt_invariant [OF loop,
        where P = "\<lambda>a. config a = config (fst sh) \<and> evolves ?H (m_grid_map (fst sh)) (m_grid_map a)"])
    show "config ((fst sh)\<lparr>m_num_contact_patches := int (length (snd hp))\<rparr>) = config (fst sh) \<and>
          evolves ?H (m_grid_map (fst sh))
            (m_grid_map ((fst sh)\<lparr>m_num_contact_patches := int (length (snd hp))\<rparr>))"
      by (simp add: evolves_hardens_refl)
  next
    fix h a b
    assume a: "config a = config (fst sh) \<and> evolves ?H (m_grid_map (fst sh)) (m_grid_map a)"
      and ph: "process_hit E (snd hp) h a = Some b"
    from a have ca: "config a = config (fst sh)" by simp
    from soil have "hardening_soil (std_pow E) a" by (simp add: hardening_soil_config [OF ca])
    from process_hit_hardens [OF ph this]
    have "evolves ?H (m_grid_map a) (m_grid_map b)" by (simp add: hardens_in_config [OF ca])
    with a config_process_hit [OF ph]
    show "config b = config (fst sh) \<and> evolves ?H (m_grid_map (fst sh)) (m_grid_map b)"
      by (auto intro: evolves_hardens_trans)
  qed
  then show ?thesis by (simp add: sp)
qed

lemma step_hardens:
  assumes step: "ComputeInternalForces E s = Some s'"
    and soil: "hardening_soil (std_pow E) s"
  shows "evolves (hardens_in (std_pow E) s) (m_grid_map s) (m_grid_map s')"
proof -
  let ?H = "hardens_in (std_pow E) s"
  from step obtain s1 sp where
    r: "reset_step s = Some s1"
    and c: "contact_forces E (ray_casting E s1) = Some sp"
    and b: "bulldozing E (snd sp) (fst sp) = Some s'"
    by (auto simp: ComputeInternalForces_def split: option.splits)
  have c1: "config (fst (ray_casting E s1)) = config s"
    using config_reset_step [OF r] by simp
  have 1: "evolves ?H (m_grid_map s) (m_grid_map s1)" by (rule reset_step_hardens [OF r])
  have 2: "evolves ?H (m_grid_map s1) (m_grid_map (fst (ray_casting E s1)))"
    by (rule ray_casting_hardens)
  have "hardening_soil (std_pow E) (fst (ray_casting E s1))"
    using soil by (simp add: hardening_soil_config [OF c1])
  from contact_forces_hardens [OF c this]
  have 3: "evolves ?H (m_grid_map (fst (ray_casting E s1))) (m_grid_map (fst sp))"
    by (simp add: hardens_in_config [OF c1])
  have 4: "evolves ?H (m_grid_map (fst sp)) (m_grid_map s')"
    by (rule evolves_mono [OF bulldozing_kept [OF b]])
       (simp add: soil_state_kept_def same_yield_hardens)
  from 1 2 3 4 show ?thesis by (blast intro: evolves_hardens_trans)
qed

lemma step_all_hardened:
  assumes step: "ComputeInternalForces E s = Some s'"
    and soil: "hardening_soil (std_pow E) s"
    and inv: "all_hardened (std_pow E) s"
  shows "all_hardened (std_pow E) s'"
  unfolding all_hardened_def
proof (intro allI impI)
  fix ij nr'
  assume n': "map_of (m_grid_map s') ij = Some nr'"
  note cf = config_fields [OF config_step [OF step]]
  from step_hardens [OF step soil] n' obtain nr where
    nr: "map_of (m_grid_map s) ij = Some nr \<or> (\<exists>z n. nr = NodeRecord_new z z n)"
    and h: "hardens_in (std_pow E) s nr nr'"
    unfolding evolves_def grid_from_def by blast
  from nr inv have "yield_hardened (std_pow E) (m_Bekker_Kphi s) (m_Bekker_n s) (m_elastic_K s) nr"
    unfolding all_hardened_def using yield_hardened_new by blast
  with h show "yield_hardened (std_pow E) (m_Bekker_Kphi s') (m_Bekker_n s') (m_elastic_K s') nr'"
    by (simp add: hardens_def cf)
qed

subsection \<open>The keys of the grid map stay distinct\<close>

lemma distinct_keys_append:
  "map_of g k = None \<Longrightarrow> distinct (map fst g) \<Longrightarrow> distinct (map fst (g @ [(k, v)]))"
  by (simp add: map_of_eq_None_iff)

lemma distinct_reset_step:
  assumes "reset_step s = Some s1" and "distinct (map fst (m_grid_map s))"
  shows "distinct (map fst (m_grid_map s1))"
proof -
  from assms(1) obtain a where a: "fold_opt reset_node (m_modified_nodes s) s = Some a"
    and g: "m_grid_map s1 = m_grid_map a"
    by (auto simp: reset_step_def split: option.splits)
  have "distinct (map fst (m_grid_map a))"
    by (rule fold_opt_invariant [OF a, where P = "\<lambda>a. distinct (map fst (m_grid_map a))"])
       (auto simp: assms(2) reset_node_def distinct_update split: option.splits)
  then show ?thesis by (simp add: g)
qed

lemma distinct_insert_hit_nodes:
  "distinct (map fst (m_grid_map s)) \<Longrightarrow>
   distinct (map fst (m_grid_map (fold (insert_hit_node E) ijs s)))"
proof (induction ijs arbitrary: s)
  case Nil
  then show ?case by simp
next
  case (Cons ij ijs)
  have "distinct (map fst (m_grid_map (insert_hit_node E ij s)))"
    using Cons.prems by (auto simp: insert_hit_node_def Let_def map_of_eq_None_iff)
  from Cons.IH [OF this] show ?case by simp
qed

lemma distinct_ray_casting:
  assumes "distinct (map fst (m_grid_map s))"
  shows "distinct (map fst (m_grid_map (fst (ray_casting E s))))"
proof -
  let ?D = "\<lambda>a. distinct (map fst (m_grid_map a))"
  have dom: "?D (fst (ray_cast_domain E p acc))" if "?D (fst acc)" for acc p
  proof -
    obtain a b where acc: "acc = (a, b)" by (cases acc) auto
    obtain c th where cd: "cast_domain E a p = (c, th)" by (cases "cast_domain E a p") auto
    from that have "?D (a\<lparr>m_num_ray_casts := m_num_ray_casts a + c\<rparr>)" by (simp add: acc)
    from distinct_insert_hit_nodes [OF this, of E "map fst th"] show ?thesis
      by (simp add: acc cd ray_cast_domain_def Let_def)
  qed
  have "?D (fst acc) \<Longrightarrow> ?D (fst (fold (ray_cast_domain E) ps acc))" for acc ps
  proof (induction ps arbitrary: acc)
    case Nil
    then show ?case by simp
  next
    case (Cons p ps)
    show ?case using Cons.IH [OF dom [OF Cons.prems]] by simp
  qed
  from this [of "(s\<lparr>m_num_ray_casts := 0, m_num_ray_hits := 0\<rparr>, [])"] assms
  show ?thesis by (simp add: ray_casting_def)
qed

lemma distinct_process_hit:
  assumes "process_hit E contact_patches h s = Some s'" and "distinct (map fst (m_grid_map s))"
  shows "distinct (map fst (m_grid_map s'))"
  using assms(1)
  by (cases rule: process_hit_cases) (simp_all add: assms(2) distinct_update)

lemma distinct_contact_forces:
  assumes "contact_forces E sh = Some sp" and "distinct (map fst (m_grid_map (fst sh)))"
  shows "distinct (map fst (m_grid_map (fst sp)))"
proof -
  from assms(1) obtain hp s4 where
    loop: "fold_opt (process_hit E (snd hp)) (fst hp)
             ((fst sh)\<lparr>m_num_contact_patches := int (length (snd hp))\<rparr>) = Some s4"
    and sp: "sp = (create_loads s4, snd hp)"
    by (auto simp: contact_forces_def Let_def split: option.splits)
  have "distinct (map fst (m_grid_map s4))"
    by (rule fold_opt_invariant [OF loop, where P = "\<lambda>a. distinct (map fst (m_grid_map a))"])
       (auto simp: assms(2) intro: distinct_process_hit)
  then show ?thesis by (simp add: sp)
qed

lemma distinct_raise_node:
  "distinct (map fst (m_grid_map s)) \<Longrightarrow> distinct (map fst (m_grid_map (raise_node E diff ij s)))"
  by (auto simp: raise_node_def Let_def distinct_update map_of_eq_None_iff split: option.splits)

lemma distinct_raise_nodes:
  "distinct (map fst (m_grid_map s)) \<Longrightarrow>
   distinct (map fst (m_grid_map (fold (raise_node E diff) ijs s)))"
  by (induction ijs arbitrary: s) (simp_all add: distinct_raise_node)

lemma distinct_raise_patch_boundary:
  "raise_patch_boundary E p acc = Some acc' \<Longrightarrow> distinct (map fst (m_grid_map (fst acc))) \<Longrightarrow>
   distinct (map fst (m_grid_map (fst acc')))"
  by (auto simp: raise_patch_boundary_def Let_def distinct_raise_nodes split: option.splits)

lemma distinct_dilate_neighbor:
  "distinct (map fst (m_grid_map (fst acc))) \<Longrightarrow>
   distinct (map fst (m_grid_map (fst (dilate_neighbor E ij off acc))))"
  by (auto simp: dilate_neighbor_def Let_def distinct_update map_of_eq_None_iff
      split: option.splits)

lemma distinct_dilate_front:
  assumes "distinct (map fst (m_grid_map (fst acc)))"
  shows "distinct (map fst (m_grid_map (fst (dilate_front E acc))))"
proof -
  let ?D = "\<lambda>a. distinct (map fst (m_grid_map (fst a)))"
  obtain s dom front where acc: "acc = (s, dom, front)" by (cases acc) auto
  have inner: "?D a \<Longrightarrow> ?D (fold (dilate_neighbor E ij) offs a)" for ij offs a
    by (induction offs arbitrary: a) (simp_all add: distinct_dilate_neighbor)
  have "?D a \<Longrightarrow> ?D (fold (\<lambda>ij. fold (dilate_neighbor E ij) neighbors4) ijs a)" for ijs a
    by (induction ijs arbitrary: a) (simp_all add: inner)
  from this [of "(s, [])"] assms show ?thesis by (simp add: acc dilate_front_def Let_def)
qed

lemma distinct_erode_node:
  assumes "erode_node dy_lim ij g = Some g'" and "distinct (map fst g)"
  shows "distinct (map fst g')"
proof -
  have nb: "distinct (map fst (snd acc)) \<Longrightarrow>
            distinct (map fst (snd (erode_neighbor dy_lim ij off acc)))" for acc off
    by (auto simp: erode_neighbor_def Let_def distinct_update split: option.splits)
  have "distinct (map fst (snd acc)) \<Longrightarrow>
        distinct (map fst (snd (fold (erode_neighbor dy_lim ij) offs acc)))" for acc offs
    by (induction offs arbitrary: acc) (simp_all add: nb)
  from this [of "(_, g)"] assms show ?thesis
    by (auto simp: erode_node_def Let_def distinct_update split: option.splits)
qed

lemma distinct_bulldozing:
  assumes "bulldozing E contact_patches s = Some s'" and d: "distinct (map fst (m_grid_map s))"
  shows "distinct (map fst (m_grid_map s'))"
proof (cases "m_bulldozing s")
  case False
  with assms show ?thesis by (auto simp: bulldozing_def Let_def)
next
  case True
  let ?s0 = "s\<lparr>m_num_erosion_nodes := 0\<rparr>"
  from assms True obtain sb where
    sb: "fold_opt (raise_patch_boundary E) contact_patches (?s0, []) = Some sb"
    by (auto simp: bulldozing_def Let_def split: option.splits)
  obtain s2 dom front where
    dil: "(dilate_front E ^^ nat (m_erosion_propagations (fst sb))) (fst sb, snd sb, snd sb)
            = (s2, dom, front)"
    by (cases "(dilate_front E ^^ nat (m_erosion_propagations (fst sb))) (fst sb, snd sb, snd sb)")
       auto
  let ?s3 = "s2\<lparr>m_num_erosion_nodes := int (length dom)\<rparr>"
  from assms True sb dil obtain g where
    er: "fold_opt (erode_node (m_delta s * m_erosion_slope s))
           (concat (replicate (nat (m_erosion_iterations ?s3)) dom)) (m_grid_map ?s3) = Some g"
    and s': "s' = ?s3\<lparr>m_grid_map := g\<rparr>"
    by (auto simp: bulldozing_def Let_def split: option.splits)
  have 1: "distinct (map fst (m_grid_map (fst sb)))"
    by (rule fold_opt_invariant [OF sb, where P = "\<lambda>a. distinct (map fst (m_grid_map (fst a)))"])
       (auto simp: d intro: distinct_raise_patch_boundary)
  have "distinct (map fst (m_grid_map (fst ((dilate_front E ^^ n) (fst sb, snd sb, snd sb)))))"
    for n
    by (rule funpow_invariant [where P = "\<lambda>a. distinct (map fst (m_grid_map (fst a)))"])
       (auto simp: 1 intro: distinct_dilate_front)
  from this [of "nat (m_erosion_propagations (fst sb))"] dil
  have 3: "distinct (map fst (m_grid_map s2))" by simp
  have "distinct (map fst g)"
    by (rule fold_opt_invariant [OF er, where P = "\<lambda>a. distinct (map fst a)"])
       (auto simp: 3 intro: distinct_erode_node)
  then show ?thesis by (simp add: s')
qed

lemma distinct_step:
  assumes "ComputeInternalForces E s = Some s'" and "distinct (map fst (m_grid_map s))"
  shows "distinct (map fst (m_grid_map s'))"
proof -
  from assms(1) obtain s1 sp where
    r: "reset_step s = Some s1"
    and c: "contact_forces E (ray_casting E s1) = Some sp"
    and b: "bulldozing E (snd sp) (fst sp) = Some s'"
    by (auto simp: ComputeInternalForces_def split: option.splits)
  from distinct_ray_casting [OF distinct_reset_step [OF r assms(2)]]
  have "distinct (map fst (m_grid_map (fst (ray_casting E s1))))" .
  from distinct_bulldozing [OF b distinct_contact_forces [OF c this]] show ?thesis .
qed

text \<open>The grid map of the constructor has distinct keys, and restoring a checkpoint keeps them distinct.\<close>

lemma distinct_new: "distinct (map fst (m_grid_map SCMLoaderOld_new))"
  by (simp add: SCMLoaderOld_new_def)

lemma distinct_SetModifiedNodes:
  "distinct (map fst (m_grid_map s)) \<Longrightarrow>
   distinct (map fst (m_grid_map (SetModifiedNodes E nodes_list s)))"
  unfolding SetModifiedNodes_def
  by (induction nodes_list arbitrary: s) (simp_all add: distinct_update)

subsection \<open>Checkpointing\<close>

lemma GetInitHeight_config:
  assumes "config s' = config s"
  shows "GetInitHeight s' loc = GetInitHeight s loc"
  using config_fields [OF assms]
  by (cases "m_type s") (simp_all add: GetInitHeight_def)

lemma GetInitNormal_config:
  assumes "config s' = config s"
  shows "GetInitNormal E s' loc = GetInitNormal E s loc"
  using config_fields [OF assms] GetInitHeight_config [OF assms]
  by (cases "m_type s") (simp_all add: GetInitNormal_def)

lemma SetModifiedNodes_fold:
  "config (SetModifiedNodes E nodes_list f) = config f \<and>
   m_grid_map (SetModifiedNodes E nodes_list f)
     = fold (\<lambda>n. AList.update (fst n) (NodeRecord_new (snd n) (snd n) (GetInitNormal E f (fst n))))
         nodes_list (m_grid_map f)"
proof -
  let ?F = "\<lambda>n. AList.update (fst n) (NodeRecord_new (snd n) (snd n) (GetInitNormal E f (fst n)))"
  have "config a = config f \<Longrightarrow>
        config (SetModifiedNodes E ns a) = config f \<and>
        m_grid_map (SetModifiedNodes E ns a) = fold ?F ns (m_grid_map a)" for a ns
  proof (induction ns arbitrary: a)
    case Nil
    then show ?case by (simp add: SetModifiedNodes_def)
  next
    case (Cons n ns)
    let ?a1 = "a\<lparr>m_grid_map := AList.update (fst n)
                 (NodeRecord_new (snd n) (snd n) (GetInitNormal E a (fst n))) (m_grid_map a)\<rparr>"
    have "config ?a1 = config f" using Cons.prems by simp
    from Cons.IH [OF this] GetInitNormal_config [OF Cons.prems]
    show ?case by (simp add: SetModifiedNodes_def)
  qed
  then show ?thesis by simp
qed

lemma fold_update_other:
  "k \<notin> fst ` set ns \<Longrightarrow> map_of (fold (\<lambda>n. AList.update (fst n) (F n)) ns g) k = map_of g k"
  by (induction ns arbitrary: g) (auto simp: update_conv')

lemma fold_update_member:
  "distinct (map fst ns) \<Longrightarrow> (k, v) \<in> set ns \<Longrightarrow>
   map_of (fold (\<lambda>n. AList.update (fst n) (F n)) ns g) k = Some (F (k, v))"
proof (induction ns arbitrary: g)
  case Nil
  then show ?case by simp
next
  case (Cons n ns)
  show ?case
  proof (cases "n = (k, v)")
    case True
    with Cons.prems(1) have "k \<notin> fst ` set ns" by auto
    from fold_update_other [OF this, of F "AList.update k (F (k, v)) g"] True
    show ?thesis by (simp add: update_conv')
  next
    case False
    with Cons.prems have "(k, v) \<in> set ns" "distinct (map fst ns)" by auto
    from Cons.IH [OF this(2,1)] show ?thesis by simp
  qed
qed

lemma fold_update_keys:
  "fst ` set (fold (\<lambda>n. AList.update (fst n) (F n)) ns g) = fst ` set g \<union> fst ` set ns"
  by (induction ns arbitrary: g) (auto simp: dom_update)

subsection \<open>The flood fill changes patch ids only\<close>

lemma update_patch_id_key_point:
  "map_of hits k = Some v \<Longrightarrow>
   map hit_key_point (AList.update k (v\<lparr>patch_id := p\<rparr>) hits) = map hit_key_point hits"
  by (induction hits) (auto simp: hit_key_point_def)

lemma flood_visit_key_point:
  "map hit_key_point (fst (flood_visit delta crt_ij crt_patch off acc)) = map hit_key_point (fst acc)"
  by (cases acc)
     (auto simp: flood_visit_def Let_def update_patch_id_key_point split: option.splits)

lemma flood_visits_key_point:
  "map hit_key_point (fst (fold (flood_visit delta crt_ij crt_patch) offs acc))
     = map hit_key_point (fst acc)"
  by (induction offs arbitrary: acc) (simp_all add: flood_visit_key_point)

lemma flood_fill_key_point:
  "flood_fill delta hits patch todo = Some r \<Longrightarrow> map hit_key_point (fst r) = map hit_key_point hits"
proof (induction delta hits patch todo arbitrary: r rule: flood_fill.induct)
  case (1 delta hits patch)
  then show ?case by auto
next
  case (2 delta hits patch c todo)
  from "2.prems" obtain crt where crt: "map_of hits c = Some crt" and pid: "patch_id crt \<noteq> - 1"
    by (auto split: option.splits if_splits)
  obtain hits1 patch1 todo1 where
    f: "fold (flood_visit delta c (patch_id crt)) neighbors4 (hits, patch, todo)
          = (hits1, patch1, todo1)"
    by (cases "fold (flood_visit delta c (patch_id crt)) neighbors4 (hits, patch, todo)") auto
  from "2.prems" crt pid f have r: "flood_fill delta hits1 patch1 todo1 = Some r" by simp
  have "map hit_key_point hits1 = map hit_key_point hits"
    using flood_visits_key_point [of delta c "patch_id crt" neighbors4 "(hits, patch, todo)"] f
    by simp
  with "2.IH" [OF crt pid f [symmetric] refl r] show ?case by simp
qed

lemma seed_patch_key_point:
  assumes "seed_patch delta ij acc = Some acc'"
  shows "map hit_key_point (fst acc') = map hit_key_point (fst acc)"
proof -
  obtain hits ps where acc: "acc = (hits, ps)" by (cases acc) auto
  from assms acc obtain h where h: "map_of hits ij = Some h"
    by (auto simp: seed_patch_def split: option.splits)
  show ?thesis
  proof (cases "patch_id h \<noteq> - 1")
    case True
    with assms acc h show ?thesis by (simp add: seed_patch_def)
  next
    case False
    let ?hits1 = "AList.update ij (h\<lparr>patch_id := int (length ps)\<rparr>) hits"
    from assms acc h False obtain r patch where
      ff: "flood_fill delta ?hits1 patch [ij] = Some r" and acc': "fst acc' = fst r"
      by (auto simp: seed_patch_def Let_def simp del: flood_fill.simps split: option.splits)
    from flood_fill_key_point [OF ff] update_patch_id_key_point [OF h]
    show ?thesis by (simp add: acc acc')
  qed
qed

lemma find_contact_patches_key_point:
  assumes "find_contact_patches E delta hits = Some hp"
  shows "map hit_key_point (fst hp) = map hit_key_point hits"
proof -
  from assms obtain r where
    r: "fold_opt (seed_patch delta) (map fst hits) (hits, []) = Some r" and hp: "fst hp = fst r"
    by (auto simp: find_contact_patches_def split: option.splits)
  have "map hit_key_point (fst r) = map hit_key_point hits"
    by (rule fold_opt_invariant [OF r,
          where P = "\<lambda>a. map hit_key_point (fst a) = map hit_key_point hits"])
       (auto dest: seed_patch_key_point)
  then show ?thesis by (simp add: hp)
qed

subsection \<open>The loop over the hit nodes\<close>

lemma trial_pressure_key_point:
  "hit_key_point h' = hit_key_point h \<Longrightarrow> trial_pressure s h' = trial_pressure s h"
  by (simp add: trial_pressure_def hit_key_point_def cong: option.case_cong)

lemma trial_pressure_same:
  assumes "config s' = config s" and "map_of (m_grid_map s') (fst h) = map_of (m_grid_map s) (fst h)"
  shows "trial_pressure s' h = trial_pressure s h"
  using config_fields [OF assms(1)] assms(2)
  by (simp add: trial_pressure_def soil_at_def cong: option.case_cong)

lemma process_hit_effect:
  assumes "process_hit E contact_patches h s = Some s'"
  shows "m_modified_nodes s' = m_modified_nodes s @ (if nonneg_trial s h then [fst h] else [])"
    and "config s' = config s"
    and "\<forall>k. k \<noteq> fst h \<longrightarrow> map_of (m_grid_map s') k = map_of (m_grid_map s) k"
    and "negative_trial s h \<longrightarrow> (\<exists>nr'. map_of (m_grid_map s') (fst h) = Some nr' \<and> sigma nr' = 0)"
  using assms
  by (cases rule: process_hit_cases;
      simp add: nonneg_trial_def negative_trial_def trial_pressure_def Let_def update_conv')+

lemma contact_loop_effect:
  assumes "distinct (map fst hs)" and "fold_opt (process_hit E contact_patches) hs s = Some s'"
  shows "m_modified_nodes s' = m_modified_nodes s @ map fst (filter (nonneg_trial s) hs) \<and>
         config s' = config s \<and>
         (\<forall>k. k \<notin> fst ` set hs \<longrightarrow> map_of (m_grid_map s') k = map_of (m_grid_map s) k) \<and>
         (\<forall>h \<in> set hs. negative_trial s h \<longrightarrow>
            (\<exists>nr'. map_of (m_grid_map s') (fst h) = Some nr' \<and> sigma nr' = 0))"
  using assms
proof (induction hs arbitrary: s)
  case Nil
  then show ?case by simp
next
  case (Cons h hs)
  from Cons.prems(2) obtain a where
    ha: "process_hit E contact_patches h s = Some a"
    and rest: "fold_opt (process_hit E contact_patches) hs a = Some s'"
    by (auto split: option.splits)
  note eff = process_hit_effect [OF ha]
  from Cons.prems(1) have d: "distinct (map fst hs)" and nh: "fst h \<notin> fst ` set hs" by auto
  note ih = Cons.IH [OF d rest]
  have same: "trial_pressure a h' = trial_pressure s h'" if "h' \<in> set hs" for h'
  proof -
    from that nh have "fst h' \<noteq> fst h" by (metis imageI)
    with eff(3) have "map_of (m_grid_map a) (fst h') = map_of (m_grid_map s) (fst h')" by blast
    with eff(2) show ?thesis by (rule trial_pressure_same)
  qed
  then have flt: "filter (nonneg_trial a) hs = filter (nonneg_trial s) hs"
    by (intro filter_cong) (simp_all add: nonneg_trial_def)
  have 1: "m_modified_nodes s' = m_modified_nodes s @ map fst (filter (nonneg_trial s) (h # hs))"
    using ih eff(1) by (simp add: flt)
  have 2: "config s' = config s" using ih eff(2) by simp
  have 3: "\<forall>k. k \<notin> fst ` set (h # hs) \<longrightarrow> map_of (m_grid_map s') k = map_of (m_grid_map s) k"
  proof (intro allI impI)
    fix k
    assume "k \<notin> fst ` set (h # hs)"
    then have "k \<noteq> fst h" "k \<notin> fst ` set hs" by auto
    with ih eff(3) show "map_of (m_grid_map s') k = map_of (m_grid_map s) k" by metis
  qed
  have 4: "\<forall>h' \<in> set (h # hs). negative_trial s h' \<longrightarrow>
            (\<exists>nr'. map_of (m_grid_map s') (fst h') = Some nr' \<and> sigma nr' = 0)"
  proof
    fix h'
    assume "h' \<in> set (h # hs)"
    then consider "h' = h" | "h' \<in> set hs" by auto
    then show "negative_trial s h' \<longrightarrow>
            (\<exists>nr'. map_of (m_grid_map s') (fst h') = Some nr' \<and> sigma nr' = 0)"
    proof cases
      case 1
      from ih nh have "map_of (m_grid_map s') (fst h) = map_of (m_grid_map a) (fst h)" by blast
      with eff(4) 1 show ?thesis by simp
    next
      case 2
      from same [OF 2] have "negative_trial a h' = negative_trial s h'"
        by (simp add: negative_trial_def)
      with ih 2 show ?thesis by blast
    qed
  qed
  from 1 2 3 4 show ?case by blast
qed

subsection \<open>The hits of the ray casting have distinct keys\<close>

lemma distinct_map_insert:
  "distinct (map fst m) \<Longrightarrow> distinct (map fst (map_insert k v m))"
  by (simp add: map_insert_def map_of_eq_None_iff)

lemma distinct_ray_casting_hits: "distinct (map fst (snd (ray_casting E s)))"
proof -
  have ins: "distinct (map fst hs) \<Longrightarrow>
             distinct (map fst (fold (\<lambda>h. map_insert (fst h) (snd h)) th hs))" for th hs
    by (induction th arbitrary: hs) (simp_all add: distinct_map_insert)
  have dom: "distinct (map fst (snd (ray_cast_domain E p acc)))"
    if "distinct (map fst (snd acc))" for acc p
  proof -
    obtain a b where acc: "acc = (a, b)" by (cases acc) auto
    obtain c th where cd: "cast_domain E a p = (c, th)" by (cases "cast_domain E a p") auto
    from that ins [of b th] show ?thesis
      by (simp add: acc cd ray_cast_domain_def Let_def)
  qed
  have "distinct (map fst (snd acc)) \<Longrightarrow>
        distinct (map fst (snd (fold (ray_cast_domain E) ps acc)))" for acc ps
  proof (induction ps arbitrary: acc)
    case Nil
    then show ?case by simp
  next
    case (Cons p ps)
    show ?case using Cons.IH [OF dom [OF Cons.prems]] by simp
  qed
  from this [of "(s\<lparr>m_num_ray_casts := 0, m_num_ray_hits := 0\<rparr>, [])"]
  show ?thesis by (simp add: ray_casting_def)
qed

lemma filter_key_point:
  assumes "map hit_key_point xs = map hit_key_point ys"
    and "\<And>a b. hit_key_point a = hit_key_point b \<Longrightarrow> P a = P b"
  shows "map fst (filter P xs) = map fst (filter P ys)"
  using assms(1)
proof (induction xs arbitrary: ys)
  case Nil
  then show ?case by simp
next
  case (Cons x xs)
  then obtain y ys' where ys: "ys = y # ys'" and xy: "hit_key_point x = hit_key_point y"
    and rest: "map hit_key_point xs = map hit_key_point ys'"
    by (cases ys) auto
  from xy have "fst x = fst y" by (simp add: hit_key_point_def)
  with Cons.IH [OF rest] assms(2) [OF xy] show ?case by (simp add: ys)
qed

lemma clamped_hit:
  assumes "map_of (m_grid_map a) (fst h) = Some nr" and "negative_trial a h"
  shows "process_hit E contact_patches h a
           = Some (a\<lparr>m_grid_map := AList.update (fst h)
                      (nr\<lparr>hit_level := vz (TransformPointParentToLocal (m_frame a) (abs_point (snd h))),
                          sigma := 0\<rparr>)
                      (m_grid_map a)\<rparr>)"
proof -
  let ?loc = "TransformPointParentToLocal (m_frame a) (abs_point (snd h))"
  from assms have neg: "sigma (fst (elastic_try (soil_at a ?loc) (vz ?loc) nr)) < 0"
    by (simp add: negative_trial_def trial_pressure_def Let_def)
  have "(fst (elastic_try (soil_at a ?loc) (vz ?loc) nr))\<lparr>sigma := 0\<rparr>
          = nr\<lparr>hit_level := vz ?loc, sigma := 0\<rparr>"
    by (simp add: elastic_try_def Let_def)
  with assms(1) neg show ?thesis by (simp add: process_hit_def Let_def)
qed

lemma bulldozing_disabled:
  "\<not> m_bulldozing s \<Longrightarrow> bulldozing E contact_patches s = Some (s\<lparr>m_num_erosion_nodes := 0\<rparr>)"
  by (simp add: bulldozing_def Let_def)

subsection \<open>The step completes on a well-formed loader\<close>

lemma fold_opt_total:
  assumes "P s" and "\<And>x a. x \<in> set xs \<Longrightarrow> P a \<Longrightarrow> \<exists>b. f x a = Some b \<and> P b"
  shows "\<exists>s'. fold_opt f xs s = Some s' \<and> P s'"
  using assms
proof (induction xs arbitrary: s)
  case Nil
  then show ?case by simp
next
  case (Cons x xs)
  from Cons.prems(2) [of x s] Cons.prems(1) obtain b where b: "f x s = Some b" "P b" by auto
  have "\<And>y a. y \<in> set xs \<Longrightarrow> P a \<Longrightarrow> \<exists>b. f y a = Some b \<and> P b"
    using Cons.prems(2) by (meson list.set_intros(2))
  from Cons.IH [OF b(2) this] b(1) show ?case by simp
qed

lemma keys_map_of: "k \<in> keys m \<longleftrightarrow> map_of m k \<noteq> None"
  by (simp add: keys_def map_of_eq_None_iff)

lemma keys_update [simp]: "keys (AList.update k v m) = insert k (keys m)"
  by (simp add: keys_def dom_update)

lemma keys_append [simp]: "keys (m @ [(k, v)]) = insert k (keys m)"
  by (auto simp: keys_def)

lemma keys_Nil [simp]: "keys [] = {}"
  by (simp add: keys_def)

lemma keys_Cons [simp]: "keys (h # m) = insert (fst h) (keys m)"
  by (simp add: keys_def)

text \<open>The reset visits nodes that have a record.\<close>

lemma reset_step_total:
  assumes "wf_loader s"
  shows "\<exists>s1. reset_step s = Some s1 \<and> keys (m_grid_map s1) = keys (m_grid_map s)"
proof -
  let ?P = "\<lambda>a::SCMLoaderOld. keys (m_grid_map a) = keys (m_grid_map s)"
  have "\<exists>a. fold_opt reset_node (m_modified_nodes s) s = Some a \<and> ?P a"
  proof (rule fold_opt_total [where P = ?P])
    show "?P s" by simp
  next
    fix ij a
    assume ij: "ij \<in> set (m_modified_nodes s)" and a: "?P a"
    with assms have "ij \<in> keys (m_grid_map a)" by (auto simp: wf_loader_def)
    then obtain nr where "map_of (m_grid_map a) ij = Some nr" by (auto simp: keys_map_of)
    with a \<open>ij \<in> keys (m_grid_map a)\<close> show "\<exists>b. reset_node ij a = Some b \<and> ?P b"
      by (auto simp: reset_node_def)
  qed
  then show ?thesis by (auto simp: reset_step_def)
qed

subsubsection \<open>Ray casting\<close>

lemma keys_insert_hit_nodes:
  "keys (m_grid_map (fold (insert_hit_node E) ijs s)) = keys (m_grid_map s) \<union> set ijs"
proof (induction ijs arbitrary: s)
  case Nil
  then show ?case by simp
next
  case (Cons ij ijs)
  have "keys (m_grid_map (insert_hit_node E ij s)) = insert ij (keys (m_grid_map s))"
    by (auto simp: insert_hit_node_def Let_def keys_map_of)
  with Cons.IH [of "insert_hit_node E ij s"] show ?case by auto
qed

lemma keys_map_insert: "keys (map_insert k v m) = insert k (keys m)"
  by (auto simp: map_insert_def keys_map_of)

lemma keys_map_inserts:
  "keys (fold (\<lambda>h. map_insert (fst h) (snd h)) th hs) = keys hs \<union> keys th"
proof (induction th arbitrary: hs)
  case Nil
  then show ?case by simp
next
  case (Cons h th)
  show ?case
    using Cons.IH [of "map_insert (fst h) (snd h) hs"]
    by (simp add: keys_map_insert)
qed

lemma ray_casting_keys:
  "keys (snd (ray_casting E s)) \<subseteq> keys (m_grid_map (fst (ray_casting E s))) \<and>
   keys (m_grid_map s) \<subseteq> keys (m_grid_map (fst (ray_casting E s)))"
proof -
  let ?P = "\<lambda>acc. keys (snd acc) \<subseteq> keys (m_grid_map (fst acc)) \<and>
                  keys (m_grid_map s) \<subseteq> keys (m_grid_map (fst acc))"
  have dom: "?P (ray_cast_domain E p acc)" if "?P acc" for acc p
  proof -
    obtain a b where acc: "acc = (a, b)" by (cases acc) auto
    obtain c th where cd: "cast_domain E a p = (c, th)" by (cases "cast_domain E a p") auto
    have th: "fst ` set th = keys th" by (simp add: keys_def)
    have r: "ray_cast_domain E p acc =
        ((fold (insert_hit_node E) (map fst th) (a\<lparr>m_num_ray_casts := m_num_ray_casts a + c\<rparr>))
           \<lparr>m_num_ray_hits := int (length (fold (\<lambda>h. map_insert (fst h) (snd h)) th b))\<rparr>,
         fold (\<lambda>h. map_insert (fst h) (snd h)) th b)"
      by (simp add: acc cd ray_cast_domain_def Let_def)
    from that show ?thesis
      unfolding r th by (simp add: acc keys_insert_hit_nodes keys_map_inserts th) blast
  qed
  have "?P acc \<Longrightarrow> ?P (fold (ray_cast_domain E) ps acc)" for acc ps
  proof (induction ps arbitrary: acc)
    case Nil
    then show ?case by simp
  next
    case (Cons p ps)
    show ?case using Cons.IH [OF dom [OF Cons.prems]] by simp
  qed
  from this [of "(s\<lparr>m_num_ray_casts := 0, m_num_ray_hits := 0\<rparr>, [])"]
  show ?thesis by (simp add: ray_casting_def)
qed

lemma cast_domain_unassigned: "unassigned_all (snd (cast_domain E s p))"
proof -
  let ?f = "\<lambda>ij (num_ray_casts, t_hits).
             case cast_ray E s p ij of
               NoCast \<Rightarrow> (num_ray_casts, t_hits)
             | NoHit \<Rightarrow> (num_ray_casts + 1, t_hits)
             | HitAt r \<Rightarrow> (num_ray_casts + (1::int), map_insert ij r t_hits)"
  have step: "unassigned_all (snd (?f ij acc))" if "unassigned_all (snd acc)" for ij acc
  proof (cases "cast_ray E s p ij")
    case (HitAt r)
    then have "patch_id r = - 1"
      by (auto simp: cast_ray_def Let_def split: if_splits option.splits)
    with that HitAt show ?thesis
      by (cases acc) (auto simp: unassigned_all_def map_insert_def)
  qed (use that in \<open>cases acc; simp\<close>)+
  have "unassigned_all (snd acc) \<Longrightarrow> unassigned_all (snd (fold ?f ijs acc))" for ijs acc
  proof (induction ijs arbitrary: acc)
    case Nil
    then show ?case by simp
  next
    case (Cons ij ijs)
    show ?case using Cons.IH [OF step [OF Cons.prems]] by simp
  qed
  from this [of "(0, [])"] show ?thesis
    by (simp add: cast_domain_def unassigned_all_def)
qed

lemma ray_casting_unassigned: "unassigned_all (snd (ray_casting E s))"
proof -
  have one: "unassigned_all hs \<Longrightarrow> patch_id v = - 1 \<Longrightarrow> unassigned_all (map_insert k v hs)"
    for hs k v
    by (auto simp: unassigned_all_def map_insert_def)
  have ins: "unassigned_all hs \<Longrightarrow> unassigned_all th \<Longrightarrow>
             unassigned_all (fold (\<lambda>h. map_insert (fst h) (snd h)) th hs)" for th hs
  proof (induction th arbitrary: hs)
    case Nil
    then show ?case by simp
  next
    case (Cons h th)
    from Cons.prems(2) have h: "patch_id (snd h) = - 1" and th: "unassigned_all th"
      by (simp_all add: unassigned_all_def)
    from Cons.IH [OF one [OF Cons.prems(1) h] th] show ?case by simp
  qed
  have dom: "unassigned_all (snd (ray_cast_domain E p acc))"
    if "unassigned_all (snd acc)" for acc p
  proof -
    obtain a b where acc: "acc = (a, b)" by (cases acc) auto
    obtain c th where cd: "cast_domain E a p = (c, th)" by (cases "cast_domain E a p") auto
    from cast_domain_unassigned [of E a p] cd have "unassigned_all th" by simp
    with that ins [of b th] show ?thesis
      by (simp add: acc cd ray_cast_domain_def Let_def)
  qed
  have "unassigned_all (snd acc) \<Longrightarrow> unassigned_all (snd (fold (ray_cast_domain E) ps acc))"
    for acc ps
  proof (induction ps arbitrary: acc)
    case Nil
    then show ?case by simp
  next
    case (Cons p ps)
    show ?case using Cons.IH [OF dom [OF Cons.prems]] by simp
  qed
  from this [of "(s\<lparr>m_num_ray_casts := 0, m_num_ray_hits := 0\<rparr>, [])"]
  show ?thesis by (simp add: ray_casting_def unassigned_all_def)
qed

subsubsection \<open>Contact patches\<close>

lemma extends_refl: "extends hits hits"
  by (simp add: extends_def)

lemma extends_trans: "extends a b \<Longrightarrow> extends b c \<Longrightarrow> extends a c"
  by (simp add: extends_def)

lemma extends_keys: "extends a b \<Longrightarrow> keys b = keys a"
  by (metis extends_def keys_def list.set_map)

lemma set_update_subset: "set (AList.update k v al) \<subseteq> insert (k, v) (set al)"
  by (induction al) auto

lemma pids_ok_update:
  assumes "pids_ok n hits" and "0 \<le> pid" and "pid < n"
  shows "pids_ok n (AList.update k (h\<lparr>patch_id := pid\<rparr>) hits)"
  unfolding pids_ok_def
proof
  fix x assume "x \<in> set (AList.update k (h\<lparr>patch_id := pid\<rparr>) hits)"
  with set_update_subset [of k "h\<lparr>patch_id := pid\<rparr>" hits]
  have "x = (k, h\<lparr>patch_id := pid\<rparr>) \<or> x \<in> set hits" by auto
  then show "patch_id (snd x) = - 1 \<or> (0 \<le> patch_id (snd x) \<and> patch_id (snd x) < n)"
    using assms unfolding pids_ok_def by auto
qed

lemma pids_ok_mono: "pids_ok n hits \<Longrightarrow> n \<le> m \<Longrightarrow> pids_ok m hits"
  unfolding pids_ok_def by (meson less_le_trans)

lemma extends_update:
  assumes "map_of hits k = Some h" and "patch_id h = - 1"
  shows "extends hits (AList.update k v hits)"
proof -
  from assms(1) have "k \<in> fst ` set hits" by (metis domI dom_map_of_conv_image_fst)
  then have "map fst (AList.update k v hits) = map fst hits"
    by (simp add: update_keys)
  moreover have "map_of (AList.update k v hits) k' = Some h'"
    if "map_of hits k' = Some h'" "patch_id h' \<noteq> - 1" for k' h'
  proof -
    from that assms have "k' \<noteq> k" by auto
    with that(1) show ?thesis by (simp add: update_conv')
  qed
  ultimately show ?thesis by (simp add: extends_def)
qed

lemma queue_ok_extends: "queue_ok hits todo \<Longrightarrow> extends hits hits' \<Longrightarrow> queue_ok hits' todo"
  unfolding queue_ok_def extends_def by blast

lemma flood_visit_inv:
  assumes inv: "flood_inv n hits0 patch0 st" and pid: "0 \<le> crt_patch" "crt_patch < n"
  shows "flood_inv n hits0 patch0 (flood_visit delta crt_ij crt_patch off st)"
proof -
  obtain hits patch todo where st: "st = (hits, patch, todo)" by (cases st) auto
  from inv have po: "pids_ok n hits" and qo: "queue_ok hits todo" and ex: "extends hits0 hits"
    and nd: "set (nodes patch) \<subseteq> set (nodes patch0) \<union> keys hits0"
    by (simp_all add: flood_inv_def st)
  let ?nbr = "cell_add crt_ij off"
  show ?thesis
  proof (cases "map_of hits ?nbr")
    case None
    with inv show ?thesis by (simp add: flood_visit_def st Let_def)
  next
    case (Some nbr)
    show ?thesis
    proof (cases "patch_id nbr = - 1")
      case False
      with Some inv show ?thesis by (simp add: flood_visit_def st Let_def)
    next
      case True
      let ?h = "AList.update ?nbr (nbr\<lparr>patch_id := crt_patch\<rparr>) hits"
      have fv: "flood_visit delta crt_ij crt_patch off st =
                  (?h, patch\<lparr>nodes := nodes patch @ [?nbr],
                              points := points patch @
                                [(delta * real_of_int (fst ?nbr), delta * real_of_int (snd ?nbr))]\<rparr>,
                   todo @ [?nbr])"
        using Some True by (simp add: flood_visit_def st Let_def)
      have e1: "extends hits ?h" by (rule extends_update [OF Some True])
      have p1: "pids_ok n ?h" by (rule pids_ok_update [OF po pid])
      have "map_of ?h ?nbr = Some (nbr\<lparr>patch_id := crt_patch\<rparr>)" by (simp add: update_conv')
      with pid(1) queue_ok_extends [OF qo e1] have q1: "queue_ok ?h (todo @ [?nbr])"
        by (auto simp: queue_ok_def)
      from Some have "?nbr \<in> keys hits" by (simp add: keys_map_of)
      with extends_keys [OF ex] nd
      have n1: "set (nodes patch @ [?nbr]) \<subseteq> set (nodes patch0) \<union> keys hits0" by auto
      from p1 q1 extends_trans [OF ex e1] n1 show ?thesis
        unfolding fv flood_inv_def by simp
    qed
  qed
qed

lemma flood_visits_inv:
  assumes "flood_inv n hits0 patch0 st" and "0 \<le> crt_patch" "crt_patch < n"
  shows "flood_inv n hits0 patch0 (fold (flood_visit delta crt_ij crt_patch) offs st)"
  using assms(1)
proof (induction offs arbitrary: st)
  case Nil
  then show ?case by simp
next
  case (Cons off offs)
  from Cons.IH [OF flood_visit_inv [OF Cons.prems assms(2,3)]] show ?case by simp
qed

lemma flood_fill_total:
  "flood_inv n hits0 patch0 (hits, patch, todo) \<Longrightarrow>
   \<exists>h' p'. flood_fill delta hits patch todo = Some (h', p') \<and>
           flood_inv n hits0 patch0 (h', p', [])"
proof (induction delta hits patch todo rule: flood_fill.induct)
  case (1 delta hits patch)
  then show ?case by simp
next
  case (2 delta hits patch c todo)
  from "2.prems" have po: "pids_ok n hits" and qo: "queue_ok hits (c # todo)"
    by (simp_all add: flood_inv_def)
  from qo obtain crt where crt: "map_of hits c = Some crt" and pid: "patch_id crt \<noteq> - 1"
    by (auto simp: queue_ok_def)
  from crt have "(c, crt) \<in> set hits" by (rule map_of_SomeD)
  with po have "patch_id (snd (c, crt)) = - 1 \<or>
      (0 \<le> patch_id (snd (c, crt)) \<and> patch_id (snd (c, crt)) < n)"
    unfolding pids_ok_def by (rule bspec)
  with pid have rng: "0 \<le> patch_id crt" "patch_id crt < n" by simp_all
  from "2.prems" have inv: "flood_inv n hits0 patch0 (hits, patch, todo)"
    by (simp add: flood_inv_def queue_ok_def)
  obtain h1 p1 t1
    where f: "fold (flood_visit delta c (patch_id crt)) neighbors4 (hits, patch, todo) = (h1, p1, t1)"
    by (cases "fold (flood_visit delta c (patch_id crt)) neighbors4 (hits, patch, todo)") auto
  from flood_visits_inv [OF inv rng, of delta c neighbors4] f
  have inv1: "flood_inv n hits0 patch0 (h1, p1, t1)" by simp
  from "2.IH" [OF crt pid f [symmetric] refl inv1] crt pid f show ?case by simp
qed

lemma seed_patch_total:
  assumes inv: "patches_inv K acc" and ij: "ij \<in> K" and sd: "seeded (fst acc) ks"
  shows "\<exists>acc'. seed_patch delta ij acc = Some acc' \<and> patches_inv K acc' \<and>
                seeded (fst acc') (insert ij ks)"
proof -
  obtain hits cps where acc: "acc = (hits, cps)" by (cases acc) auto
  from inv have K: "keys hits = K" and po: "pids_ok (int (length cps)) hits"
    and nd: "\<forall>p \<in> set cps. set (nodes p) \<subseteq> K"
    by (simp_all add: patches_inv_def acc)
  from ij K obtain h where h: "map_of hits ij = Some h" by (auto simp: keys_map_of)
  show ?thesis
  proof (cases "patch_id h = - 1")
    case False
    with h have "seed_patch delta ij acc = Some acc" by (simp add: seed_patch_def acc)
    moreover from sd h False have "seeded (fst acc) (insert ij ks)"
      by (simp add: seeded_def acc)
    ultimately show ?thesis using inv by simp
  next
    case True
    let ?n = "int (length cps)"
    let ?h1 = "AList.update ij (h\<lparr>patch_id := ?n\<rparr>) hits"
    let ?p = "\<lparr> points = [(delta * real_of_int (fst ij), delta * real_of_int (snd ij))],
                nodes = [ij], area = 0, perimeter = 0, oob = 0 \<rparr>"
    have e1: "extends hits ?h1" by (rule extends_update [OF h True])
    have p1: "pids_ok (?n + 1) ?h1"
      by (rule pids_ok_update [OF pids_ok_mono [OF po]]) simp_all
    have m1: "map_of ?h1 ij = Some (h\<lparr>patch_id := ?n\<rparr>)" by (simp add: update_conv')
    then have q1: "queue_ok ?h1 [ij]" by (simp add: queue_ok_def)
    have "flood_inv (?n + 1) ?h1 ?p (?h1, ?p, [ij])"
      using p1 q1 by (simp add: flood_inv_def extends_refl)
    from flood_fill_total [OF this, of delta] obtain h2 p2
      where ff: "flood_fill delta ?h1 ?p [ij] = Some (h2, p2)"
        and inv2: "flood_inv (?n + 1) ?h1 ?p (h2, p2, [])"
      by blast
    from inv2 have po2: "pids_ok (?n + 1) h2" and e2: "extends ?h1 h2"
      and nd2: "set (nodes p2) \<subseteq> {ij} \<union> keys ?h1"
      by (simp_all add: flood_inv_def)
    have e: "extends hits h2" by (rule extends_trans [OF e1 e2])
    have sp: "seed_patch delta ij acc = Some (h2, cps @ [p2])"
      using h True ff by (simp add: seed_patch_def acc Let_def)
    have K2: "keys h2 = K" using extends_keys [OF e] K by simp
    from nd2 ij K have "set (nodes p2) \<subseteq> K" by auto
    with nd K2 po2 have pi: "patches_inv K (h2, cps @ [p2])"
      by (simp add: patches_inv_def add.commute)
    have "patch_id (h\<lparr>patch_id := ?n\<rparr>) \<noteq> - 1" by simp
    with e2 m1 have "map_of h2 ij = Some (h\<lparr>patch_id := ?n\<rparr>)"
      unfolding extends_def by blast
    then have s1: "\<exists>h'. map_of h2 ij = Some h' \<and> patch_id h' \<noteq> - 1" by simp
    have s2: "\<exists>h'. map_of h2 k = Some h' \<and> patch_id h' \<noteq> - 1" if "k \<in> ks" for k
    proof -
      from sd that obtain h' where "map_of hits k = Some h'" "patch_id h' \<noteq> - 1"
        by (auto simp: seeded_def acc)
      with e show ?thesis unfolding extends_def by blast
    qed
    from s1 s2 have "seeded h2 (insert ij ks)" by (auto simp: seeded_def)
    with sp pi show ?thesis by simp
  qed
qed

lemma seed_patches_total:
  assumes "patches_inv K acc" and "set ijs \<subseteq> K" and "seeded (fst acc) ks"
  shows "\<exists>acc'. fold_opt (seed_patch delta) ijs acc = Some acc' \<and> patches_inv K acc' \<and>
                seeded (fst acc') (set ijs \<union> ks)"
  using assms
proof (induction ijs arbitrary: acc ks)
  case Nil
  then show ?case by simp
next
  case (Cons ij ijs)
  from Cons.prems(2) have ij: "ij \<in> K" and ijs: "set ijs \<subseteq> K" by simp_all
  from seed_patch_total [OF Cons.prems(1) ij Cons.prems(3), of delta] obtain acc1
    where a1: "seed_patch delta ij acc = Some acc1" "patches_inv K acc1"
      "seeded (fst acc1) (insert ij ks)"
    by blast
  from Cons.IH [OF a1(2) ijs a1(3)] a1(1) show ?case by simp
qed

lemma patch_geometry_nodes: "nodes (patch_geometry E p) = nodes p"
  by (simp add: patch_geometry_def Let_def)

lemma find_contact_patches_total:
  assumes "unassigned_all hits" and "distinct (map fst hits)"
  shows "\<exists>hits1 cps. find_contact_patches E delta hits = Some (hits1, cps) \<and>
           keys hits1 = keys hits \<and> patched hits1 cps"
proof -
  have "patches_inv (keys hits) (hits, [])"
    using assms(1) by (simp add: patches_inv_def pids_ok_def unassigned_all_def)
  moreover have "set (map fst hits) \<subseteq> keys hits" by (simp add: keys_def)
  moreover have "seeded (fst (hits, [])) {}" by (simp add: seeded_def)
  ultimately obtain acc'
    where f: "fold_opt (seed_patch delta) (map fst hits) (hits, []) = Some acc'"
      and pi: "patches_inv (keys hits) acc'"
      and sd: "seeded (fst acc') (set (map fst hits) \<union> {})"
    using seed_patches_total [of "keys hits" "(hits, [])" "map fst hits" "{}" delta] by blast
  obtain h1 cps where acc': "acc' = (h1, cps)" by (cases acc') auto
  from pi have K: "keys h1 = keys hits" and po: "pids_ok (int (length cps)) h1"
    and nd: "\<forall>p \<in> set cps. set (nodes p) \<subseteq> keys hits"
    by (simp_all add: patches_inv_def acc')
  have fc: "find_contact_patches E delta hits = Some (h1, map (patch_geometry E) cps)"
    using f by (simp add: find_contact_patches_def acc')
  have "map fst (map hit_key_point h1) = map fst (map hit_key_point hits)"
    using find_contact_patches_key_point [OF fc] by simp
  then have "map fst h1 = map fst hits" by (simp add: hit_key_point_def comp_def)
  with assms(2) have d1: "distinct (map fst h1)" by simp
  have rng: "0 \<le> patch_id (snd h) \<and> patch_id (snd h) < int (length cps)" if "h \<in> set h1" for h
  proof -
    from that have "fst h \<in> set (map fst hits)"
      using K by (auto simp: keys_def)
    with sd obtain h' where h': "map_of h1 (fst h) = Some h'" "patch_id h' \<noteq> - 1"
      by (auto simp: seeded_def acc')
    from that d1 have "map_of h1 (fst h) = Some (snd h)" by (simp add: map_of_eq_Some_iff)
    with h' have "patch_id (snd h) \<noteq> - 1" by simp
    moreover from po that have "patch_id (snd h) = - 1 \<or>
        (0 \<le> patch_id (snd h) \<and> patch_id (snd h) < int (length cps))"
      unfolding pids_ok_def by (rule bspec)
    ultimately show ?thesis by simp
  qed
  from rng nd K have "patched h1 (map (patch_geometry E) cps)"
    by (simp add: patched_def patch_geometry_nodes)
  with fc K show ?thesis by blast
qed

subsubsection \<open>Contact forces\<close>

lemma process_hit_total:
  assumes "map_of (m_grid_map s) (fst h) = Some nr"
    and "0 \<le> patch_id (snd h)" and "patch_id (snd h) < int (length cps)"
  shows "\<exists>s'. process_hit E cps h s = Some s' \<and>
              keys (m_grid_map s') = keys (m_grid_map s) \<and>
              set (m_modified_nodes s') \<subseteq> insert (fst h) (set (m_modified_nodes s))"
proof -
  from assms have "\<exists>s'. process_hit E cps h s = Some s'"
    by (simp add: process_hit_def Let_def)
  then obtain s' where s': "process_hit E cps h s = Some s'" ..
  from assms(1) have k: "fst h \<in> keys (m_grid_map s)" by (simp add: keys_map_of)
  from s' have "keys (m_grid_map s') = keys (m_grid_map s) \<and>
              set (m_modified_nodes s') \<subseteq> insert (fst h) (set (m_modified_nodes s))"
  proof (cases rule: process_hit_cases)
    case (clamped nr)
    with k show ?thesis by (auto simp: insert_absorb)
  next
    case (contact nr Vn Vt patch_oob s2)
    with k show ?thesis by (auto simp: insert_absorb)
  qed
  with s' show ?thesis by blast
qed

lemma contact_loop_total:
  assumes pt: "patched hits cps" and ks: "keys hits \<subseteq> keys (m_grid_map s)" and wf: "wf_loader s"
  shows "\<exists>s'. fold_opt (process_hit E cps) hits s = Some s' \<and>
              keys (m_grid_map s') = keys (m_grid_map s) \<and> wf_loader s'"
proof -
  let ?P = "\<lambda>a::SCMLoaderOld. keys (m_grid_map a) = keys (m_grid_map s) \<and> wf_loader a"
  show ?thesis
  proof (rule fold_opt_total [where P = ?P])
    show "?P s" using wf by simp
  next
    fix h a
    assume h: "h \<in> set hits" and a: "?P a"
    from h have "fst h \<in> keys hits" by (simp add: keys_def)
    with ks a have k: "fst h \<in> keys (m_grid_map a)" by auto
    then obtain nr where nr: "map_of (m_grid_map a) (fst h) = Some nr"
      by (auto simp: keys_map_of)
    from pt h have rng: "0 \<le> patch_id (snd h)" "patch_id (snd h) < int (length cps)"
      by (simp_all add: patched_def)
    from process_hit_total [OF nr rng, of E] obtain b
      where b: "process_hit E cps h a = Some b" "keys (m_grid_map b) = keys (m_grid_map a)"
        "set (m_modified_nodes b) \<subseteq> insert (fst h) (set (m_modified_nodes a))"
      by blast
    have "set (m_modified_nodes b) \<subseteq> keys (m_grid_map b)"
      using a b(2,3) k unfolding wf_loader_def by blast
    with a b(2) have "?P b" by (simp add: wf_loader_def)
    with b(1) show "\<exists>b. process_hit E cps h a = Some b \<and> ?P b" by blast
  qed
qed

lemma wf_loader_create_loads [simp]: "wf_loader (create_loads s) = wf_loader s"
  by (simp add: wf_loader_def create_loads_def)

lemma contact_forces_total:
  assumes wf: "wf_loader s" and ks: "keys hits \<subseteq> keys (m_grid_map s)"
    and un: "unassigned_all hits" and ds: "distinct (map fst hits)"
  shows "\<exists>s' cps. contact_forces E (s, hits) = Some (s', cps) \<and> wf_loader s' \<and>
           (\<forall>p \<in> set cps. set (nodes p) \<subseteq> keys (m_grid_map s'))"
proof -
  from find_contact_patches_total [OF un ds, of E "m_delta s"] obtain hits1 cps
    where f: "find_contact_patches E (m_delta s) hits = Some (hits1, cps)"
      and K: "keys hits1 = keys hits" and pt: "patched hits1 cps"
    by blast
  let ?s3 = "s\<lparr>m_num_contact_patches := int (length cps)\<rparr>"
  have wf3: "wf_loader ?s3" using wf by (simp add: wf_loader_def)
  have ks3: "keys hits1 \<subseteq> keys (m_grid_map ?s3)" using ks K by simp
  from contact_loop_total [OF pt ks3 wf3, of E] obtain s4
    where s4: "fold_opt (process_hit E cps) hits1 ?s3 = Some s4"
      "keys (m_grid_map s4) = keys (m_grid_map s)" "wf_loader s4"
    by auto
  have cf: "contact_forces E (s, hits) = Some (create_loads s4, cps)"
    using f s4(1) by (simp add: contact_forces_def Let_def)
  from pt have "\<forall>p \<in> set cps. set (nodes p) \<subseteq> keys hits1" by (simp add: patched_def)
  with K ks s4(2) have "\<forall>p \<in> set cps. set (nodes p) \<subseteq> keys (m_grid_map s4)" by blast
  then have "\<forall>p \<in> set cps. set (nodes p) \<subseteq> keys (m_grid_map (create_loads s4))" by simp
  with cf s4(3) show ?thesis by simp
qed

subsubsection \<open>Bulldozing\<close>

lemma set_set_insert [simp]: "set (set_insert k xs) = insert k (set xs)"
  by (auto simp: set_insert_def)

lemma set_fold_set_insert [simp]: "set (fold set_insert xs ys) = set xs \<union> set ys"
  by (induction xs arbitrary: ys) auto

lemma raise_node_keys:
  "keys (m_grid_map (raise_node E diff ij s)) = insert ij (keys (m_grid_map s)) \<and>
   set (m_modified_nodes (raise_node E diff ij s)) = insert ij (set (m_modified_nodes s))"
  by (cases "map_of (m_grid_map s) ij") (simp_all add: raise_node_def Let_def)

lemma raise_nodes_keys:
  "keys (m_grid_map (fold (raise_node E diff) ijs s)) = set ijs \<union> keys (m_grid_map s) \<and>
   set (m_modified_nodes (fold (raise_node E diff) ijs s)) = set ijs \<union> set (m_modified_nodes s)"
proof (induction ijs arbitrary: s)
  case Nil
  then show ?case by simp
next
  case (Cons ij ijs)
  show ?case
    using Cons.IH [of "raise_node E diff ij s"] raise_node_keys [of E diff ij s] by auto
qed

lemma patch_flow_total:
  assumes "set ijs \<subseteq> keys g"
  shows "\<exists>fb. fold_opt (patch_flow_node g) ijs acc = Some fb"
proof -
  have "\<exists>fb. fold_opt (patch_flow_node g) ijs acc = Some fb \<and> True"
  proof (rule fold_opt_total [where P = "\<lambda>_. True"])
    fix ij a
    assume "ij \<in> set ijs"
    with assms have "ij \<in> keys g" by blast
    then obtain nr where "map_of g ij = Some nr" by (auto simp: keys_map_of)
    then show "\<exists>b. patch_flow_node g ij a = Some b \<and> True"
      by (simp add: patch_flow_node_def)
  qed simp
  then show ?thesis by simp
qed

lemma raise_patch_boundary_total:
  assumes inv: "bulldozed G acc" and p: "set (nodes p) \<subseteq> G"
  shows "\<exists>acc'. raise_patch_boundary E p acc = Some acc' \<and> bulldozed G acc'"
proof -
  from inv p have "set (nodes p) \<subseteq> keys (m_grid_map (fst acc))" by (auto simp: bulldozed_def)
  from patch_flow_total [OF this, of "(0, [])"] obtain fb
    where fb: "fold_opt (patch_flow_node (m_grid_map (fst acc))) (nodes p) (0, []) = Some fb" ..
  let ?diff = "m_flow_factor (fst acc) * (fst fb * GetStep E) / real (length (snd fb))"
  let ?s = "fold (raise_node E ?diff) (snd fb) (fst acc)"
  have r: "raise_patch_boundary E p acc = Some (?s, fold set_insert (snd fb) (snd acc))"
    using fb by (simp add: raise_patch_boundary_def Let_def)
  from inv raise_nodes_keys [of E ?diff "snd fb" "fst acc"]
  have "bulldozed G (?s, fold set_insert (snd fb) (snd acc))"
    by (auto simp: bulldozed_def wf_loader_def)
  with r show ?thesis by simp
qed

lemma raise_patches_total:
  assumes "bulldozed G acc" and "\<forall>p \<in> set cps. set (nodes p) \<subseteq> G"
  shows "\<exists>acc'. fold_opt (raise_patch_boundary E) cps acc = Some acc' \<and> bulldozed G acc'"
  by (rule fold_opt_total [where P = "bulldozed G"])
     (use assms raise_patch_boundary_total in auto)

lemma dilate_neighbor_bulldozed:
  assumes "bulldozed G acc"
  shows "bulldozed G (dilate_neighbor E ij off acc)"
proof -
  obtain s front where acc: "acc = (s, front)" by (cases acc) auto
  show ?thesis
  proof (cases "map_of (m_grid_map s) (cell_add ij off)")
    case None
    with assms show ?thesis
      by (auto simp: dilate_neighbor_def Let_def acc bulldozed_def wf_loader_def)
  next
    case (Some nr)
    with assms show ?thesis
      by (auto simp: dilate_neighbor_def Let_def acc bulldozed_def wf_loader_def)
  qed
qed

lemma dilate_neighbors_bulldozed:
  "bulldozed G acc \<Longrightarrow> bulldozed G (fold (dilate_neighbor E ij) offs acc)"
  by (induction offs arbitrary: acc) (simp_all add: dilate_neighbor_bulldozed)

lemma dilate_nodes_bulldozed:
  "bulldozed G acc \<Longrightarrow>
   bulldozed G (fold (\<lambda>ij. fold (dilate_neighbor E ij) neighbors4) ijs acc)"
  by (induction ijs arbitrary: acc) (simp_all add: dilate_neighbors_bulldozed)

lemma dilate_front_dilated:
  assumes "dilated acc"
  shows "dilated (dilate_front E acc)"
proof -
  obtain s dom front where acc: "acc = (s, dom, front)" by (cases acc) auto
  let ?sf = "fold (\<lambda>ij. fold (dilate_neighbor E ij) neighbors4) front (s, [])"
  from assms have "bulldozed (keys (m_grid_map s)) (s, [])"
    by (simp add: dilated_def acc bulldozed_def)
  from dilate_nodes_bulldozed [OF this, of E front]
  have b: "bulldozed (keys (m_grid_map s)) ?sf" .
  have d: "dilate_front E acc = (fst ?sf, fold set_insert (snd ?sf) dom, snd ?sf)"
    by (simp add: dilate_front_def acc Let_def)
  from b assms show ?thesis
    unfolding d by (auto simp: dilated_def acc bulldozed_def)
qed

lemma erode_neighbor_keys:
  "keys (snd (erode_neighbor dy_lim ij off acc)) = keys (snd acc)"
  by (cases "map_of (snd acc) (cell_add ij off)")
     (auto simp: erode_neighbor_def Let_def keys_map_of)

lemma erode_neighbors_keys:
  "keys (snd (fold (erode_neighbor dy_lim ij) offs acc)) = keys (snd acc)"
  by (induction offs arbitrary: acc) (simp_all add: erode_neighbor_keys)

lemma erode_node_total:
  assumes "ij \<in> keys g"
  shows "\<exists>g'. erode_node dy_lim ij g = Some g' \<and> keys g' = keys g"
proof -
  from assms obtain nr where "map_of g ij = Some nr" by (auto simp: keys_map_of)
  with assms erode_neighbors_keys [of dy_lim ij neighbors4 "(nr, g)"] show ?thesis
    by (auto simp: erode_node_def Let_def)
qed

lemma erode_total:
  assumes "set ijs \<subseteq> keys g"
  shows "\<exists>g'. fold_opt (erode_node dy_lim) ijs g = Some g' \<and> keys g' = keys g"
proof (rule fold_opt_total [where P = "\<lambda>a. keys a = keys g"])
  fix ij and a :: "(ChVector2i \<times> NodeRecord) list"
  assume "ij \<in> set ijs" and a: "keys a = keys g"
  with assms have "ij \<in> keys a" by blast
  from erode_node_total [OF this, of dy_lim] a
  show "\<exists>b. erode_node dy_lim ij a = Some b \<and> keys b = keys g" by auto
qed simp

lemma bulldozing_total:
  assumes wf: "wf_loader s" and ps: "\<forall>p \<in> set cps. set (nodes p) \<subseteq> keys (m_grid_map s)"
  shows "\<exists>s'. bulldozing E cps s = Some s' \<and> wf_loader s'"
proof (cases "m_bulldozing s")
  case False
  with wf show ?thesis by (simp add: bulldozing_def Let_def wf_loader_def)
next
  case True
  let ?s0 = "s\<lparr>m_num_erosion_nodes := 0\<rparr>"
  let ?G = "keys (m_grid_map s)"
  have "bulldozed ?G (?s0, [])" using wf by (simp add: bulldozed_def wf_loader_def)
  from raise_patches_total [OF this ps, of E] obtain sb
    where sb: "fold_opt (raise_patch_boundary E) cps (?s0, []) = Some sb" "bulldozed ?G sb"
    by blast
  let ?d = "(dilate_front E ^^ nat (m_erosion_propagations (fst sb))) (fst sb, snd sb, snd sb)"
  obtain s2 dom front where d: "?d = (s2, dom, front)" by (cases ?d) auto
  have "dilated (fst sb, snd sb, snd sb)" using sb(2) by (simp add: dilated_def bulldozed_def)
  then have "dilated ?d" by (rule funpow_invariant) (rule dilate_front_dilated)
  with d have wf2: "wf_loader s2" and dm: "set dom \<subseteq> keys (m_grid_map s2)"
    by (simp_all add: dilated_def)
  let ?s3 = "s2\<lparr>m_num_erosion_nodes := int (length dom)\<rparr>"
  have "set (concat (replicate (nat (m_erosion_iterations ?s3)) dom)) \<subseteq> keys (m_grid_map ?s3)"
    using dm by auto
  from erode_total [OF this, of "m_delta ?s0 * m_erosion_slope ?s0"] obtain g
    where g: "fold_opt (erode_node (m_delta ?s0 * m_erosion_slope ?s0))
                (concat (replicate (nat (m_erosion_iterations ?s3)) dom)) (m_grid_map ?s3) = Some g"
      "keys g = keys (m_grid_map ?s3)"
    by blast
  have "bulldozing E cps s = Some (?s3\<lparr>m_grid_map := g\<rparr>)"
    using True sb(1) d g(1) by (simp add: bulldozing_def Let_def)
  moreover have "wf_loader (?s3\<lparr>m_grid_map := g\<rparr>)"
    using wf2 g(2) by (simp add: wf_loader_def)
  ultimately show ?thesis by blast
qed

subsubsection \<open>The whole step\<close>

text \<open>
  A step on a well-formed loader completes: no lookup with \<^verbatim>\<open>at\<close> fails, the flood
  fill only queues hit nodes that have a patch id, and every hit node is given the id of
  an existing patch. The loader after the step is well formed again.
\<close>

lemma ComputeInternalForces_total:
  assumes "wf_loader s"
  shows "\<exists>s'. ComputeInternalForces E s = Some s' \<and> wf_loader s'"
proof -
  from reset_step_total [OF assms] obtain s1
    where s1: "reset_step s = Some s1" by blast
  have m1: "m_modified_nodes s1 = []"
    using s1 by (auto simp: reset_step_def split: option.splits)
  obtain sr hits where rc: "ray_casting E s1 = (sr, hits)" by (cases "ray_casting E s1") auto
  from ray_casting_modified [of E s1] rc m1 have "m_modified_nodes sr = []" by simp
  then have wfr: "wf_loader sr" by (simp add: wf_loader_def)
  from ray_casting_keys [of E s1] rc have ks: "keys hits \<subseteq> keys (m_grid_map sr)" by simp
  from ray_casting_unassigned [of E s1] rc have un: "unassigned_all hits" by simp
  from distinct_ray_casting_hits [of E s1] rc have ds: "distinct (map fst hits)" by simp
  from contact_forces_total [OF wfr ks un ds, of E] obtain s4 cps
    where cf: "contact_forces E (sr, hits) = Some (s4, cps)" and wf4: "wf_loader s4"
      and ps: "\<forall>p \<in> set cps. set (nodes p) \<subseteq> keys (m_grid_map s4)"
    by blast
  from bulldozing_total [OF wf4 ps, of E] obtain s'
    where b: "bulldozing E cps s4 = Some s'" "wf_loader s'" by blast
  from s1 rc cf b show ?thesis by (simp add: ComputeInternalForces_def)
qed

text \<open>The modified nodes of a well-formed loader can be retrieved.\<close>

lemma GetModifiedNodes_total:
  assumes "wf_loader s"
  shows "\<exists>nodes_list. GetModifiedNodes all_nodes s = Some nodes_list"
proof (cases all_nodes)
  case True
  then show ?thesis by (simp add: GetModifiedNodes_def)
next
  case False
  let ?f = "\<lambda>ij nodes_list. case map_of (m_grid_map s) ij of
              None \<Rightarrow> None | Some rec \<Rightarrow> Some (nodes_list @ [(ij, level rec)])"
  have "\<exists>r. fold_opt ?f (m_modified_nodes s) [] = Some r \<and> True"
  proof (rule fold_opt_total [where P = "\<lambda>_. True"])
    fix ij a
    assume "ij \<in> set (m_modified_nodes s)"
    with assms have "ij \<in> keys (m_grid_map s)" unfolding wf_loader_def by blast
    then obtain nr where "map_of (m_grid_map s) ij = Some nr"
      by (auto simp: keys_map_of)
    then show "\<exists>b. ?f ij a = Some b \<and> True" by simp
  qed simp
  with False show ?thesis by (simp add: GetModifiedNodes_def)
qed

text \<open>The loader of the constructor is well formed, and restoring a checkpoint keeps a loader so.\<close>

lemma wf_loader_new: "wf_loader SCMLoaderOld_new"
  by (simp add: wf_loader_def SCMLoaderOld_new_def)

lemma wf_loader_SetModifiedNodes:
  "wf_loader s \<Longrightarrow> wf_loader (SetModifiedNodes E nodes_list s)"
proof -
  have "keys (m_grid_map s) \<subseteq> keys (m_grid_map (SetModifiedNodes E nodes_list s)) \<and>
        m_modified_nodes (SetModifiedNodes E nodes_list s) = m_modified_nodes s"
    unfolding SetModifiedNodes_def
  proof (induction nodes_list arbitrary: s)
    case Nil
    then show ?case by simp
  next
    case (Cons n ns)
    let ?s1 = "s\<lparr>m_grid_map := AList.update (fst n)
                  (NodeRecord_new (snd n) (snd n) (GetInitNormal E s (fst n))) (m_grid_map s)\<rparr>"
    from Cons.IH [of ?s1] show ?case by auto
  qed
  then show "wf_loader s \<Longrightarrow> wf_loader (SetModifiedNodes E nodes_list s)"
    by (auto simp: wf_loader_def)
qed

section \<open>Properties\<close>

subsection \<open>Soil parameters\<close>

text \<open>
  Claim C7. After every call of \<open>SetSoilParameters\<close> the stored elastic stiffness is the
  maximum of the given stiffness and the given \<open>Kphi\<close>: a stiffness below \<open>Kphi\<close> is
  raised to \<open>Kphi\<close> and not rejected, so the stored stiffness is never below the stored
  \<open>Kphi\<close>.
\<close>

theorem SetSoilParameters_elastic_K:
  "m_elastic_K (SetSoilParameters Kphi Kc n c phi J K R s) = max K Kphi \<and>
   m_Bekker_Kphi (SetSoilParameters Kphi Kc n c phi J K R s) = Kphi \<and>
   m_Bekker_Kphi (SetSoilParameters Kphi Kc n c phi J K R s)
     \<le> m_elastic_K (SetSoilParameters Kphi Kc n c phi J K R s)"
  by (simp add: SetSoilParameters_def)

subsection \<open>Boundary\<close>

text \<open>
  Claim C8. \<open>SetBoundary\<close> with an inverted box leaves the loader as it is. With a box
  that is not inverted it stores the box and sets the boundary flag (and changes nothing
  else), and from then on the loop over the cells of an active domain skips, without
  casting a ray, every node whose position is outside the box in x or in y.
\<close>

theorem SetBoundary_effect:
  "(IsInverted E aabb \<longrightarrow> SetBoundary E aabb s = s) \<and>
   (\<not> IsInverted E aabb \<longrightarrow>
      SetBoundary E aabb s = s\<lparr>m_aabb := aabb, m_boundary := True\<rparr> \<and>
      (\<forall>p ij. real_of_int (fst ij) * m_delta s > vx (aabb_max aabb) \<or>
              real_of_int (fst ij) * m_delta s < vx (aabb_min aabb) \<or>
              real_of_int (snd ij) * m_delta s > vy (aabb_max aabb) \<or>
              real_of_int (snd ij) * m_delta s < vy (aabb_min aabb)
              \<longrightarrow> cast_ray E (SetBoundary E aabb s) p ij = NoCast))"
  by (simp add: SetBoundary_def cast_ray_def Let_def)

theorem SetBoundary_effect_witness:
  "IsInverted no_collider inverted_box \<and>
   SetBoundary no_collider inverted_box (small_terrain 0) = small_terrain 0 \<and>
   \<not> IsInverted no_collider half_box \<and>
   m_aabb (SetBoundary no_collider half_box (small_terrain 0)) = half_box \<and>
   m_boundary (SetBoundary no_collider half_box (small_terrain 0)) \<and>
   cast_ray no_collider (SetBoundary no_collider half_box (small_terrain 0)) two_nodes_domain (1, 0) = NoCast"
proof -
  have inv: "IsInverted no_collider inverted_box"
    by (simp add: no_collider_def inverted_box_def)
  have ninv: "\<not> IsInverted no_collider half_box"
    by (simp add: no_collider_def half_box_def)
  have d: "m_delta (small_terrain 0) = 1"
    by (simp add: small_terrain_def Initialize_flat_def Let_def)
  note inverted = SetBoundary_effect [of no_collider inverted_box "small_terrain 0"]
  note stored = SetBoundary_effect [of no_collider half_box "small_terrain 0"]
  have a: "SetBoundary no_collider inverted_box (small_terrain 0) = small_terrain 0"
    by (rule inverted [THEN conjunct1, THEN mp, OF inv])
  note bc = stored [THEN conjunct2, THEN mp, OF ninv]
  have b: "SetBoundary no_collider half_box (small_terrain 0)
             = (small_terrain 0)\<lparr>m_aabb := half_box, m_boundary := True\<rparr>"
    by (rule bc [THEN conjunct1])
  have "real_of_int (fst (1, 0)) * m_delta (small_terrain 0) > vx (aabb_max half_box)"
    by (simp add: d half_box_def)
  then have c: "cast_ray no_collider (SetBoundary no_collider half_box (small_terrain 0)) two_nodes_domain (1, 0)
          = NoCast"
    using bc [THEN conjunct2, rule_format, of "(1, 0)" two_nodes_domain] by blast
  from inv ninv a b c show ?thesis by simp
qed

subsection \<open>Flat initialisation\<close>

text \<open>
  Claim C10. Flat initialisation with positive sizes \<open>sizeX\<close>, \<open>sizeY\<close> and a positive
  target spacing \<open>delta\<close> (and grid counts that fit a 32-bit integer) sets the half grid
  counts to \<open>\<lceil>sizeX / (2 delta)\<rceil>\<close> and \<open>\<lceil>sizeY / (2 delta)\<rceil>\<close>, the grid spacing to
  \<open>sizeX / (2 m_nx)\<close>, which is at most \<open>delta\<close>, and the base height to 0 at every grid
  node.
\<close>

theorem Initialize_flat_grid:
  assumes "0 < sizeX" and "0 < sizeY" and "0 < delta"
    and "2 * \<lceil>sizeX / (2 * delta)\<rceil> < 2 ^ 31" and "\<lceil>sizeY / (2 * delta)\<rceil> < 2 ^ 31"
  shows "m_nx (Initialize_flat sizeX sizeY delta s) = \<lceil>sizeX / (2 * delta)\<rceil>
       \<and> m_ny (Initialize_flat sizeX sizeY delta s) = \<lceil>sizeY / (2 * delta)\<rceil>
       \<and> 0 < m_nx (Initialize_flat sizeX sizeY delta s)
       \<and> m_delta (Initialize_flat sizeX sizeY delta s)
           = sizeX / (2 * real_of_int (m_nx (Initialize_flat sizeX sizeY delta s)))
       \<and> m_delta (Initialize_flat sizeX sizeY delta s) \<le> delta
       \<and> (\<forall>loc. GetInitHeight (Initialize_flat sizeX sizeY delta s) loc = 0)"
proof -
  let ?n = "real_of_int \<lceil>sizeX / (2 * delta)\<rceil>"
  have "0 < sizeX / (2 * delta)" using assms by simp
  then have nxpos: "0 < \<lceil>sizeX / (2 * delta)\<rceil>" by (simp add: ceiling_less_iff)
  then have npos: "0 < ?n" by simp
  have le: "sizeX / (2 * delta) \<le> ?n" by (rule le_of_int_ceiling)
  have "2 * delta > 0" using assms by simp
  then have "sizeX \<le> ?n * (2 * delta)"
    using le by (simp only: pos_divide_le_eq)
  then have "sizeX \<le> delta * (2 * ?n)" by (simp only: mult_ac)
  moreover have "0 < 2 * ?n" using npos by simp
  ultimately have dle: "sizeX / (2 * ?n) \<le> delta"
    by (simp only: pos_divide_le_eq)
  show ?thesis
    using nxpos dle by (simp add: Initialize_flat_def Let_def GetInitHeight_def)
qed

theorem Initialize_flat_grid_witness:
  "m_nx (Initialize_flat 10 10 (1 / 10) SCMLoaderOld_new) = 50 \<and>
   m_ny (Initialize_flat 10 10 (1 / 10) SCMLoaderOld_new) = 50 \<and>
   m_delta (Initialize_flat 10 10 (1 / 10) SCMLoaderOld_new) = 1 / 10 \<and>
   GetInitHeight (Initialize_flat 10 10 (1 / 10) SCMLoaderOld_new) (3, - 7) = 0"
  using Initialize_flat_grid [of 10 10 "1 / 10" SCMLoaderOld_new]
  by simp

subsection \<open>Material transfer\<close>

text \<open>
  \<open>AddMaterialToNode\<close> raises the level to at most \<open>hit_level\<close>, adds the part of the
  amount that does not fit to \<open>massremainder\<close>, and raises \<open>level_initial\<close> by the amount
  by which the level was raised.
\<close>

lemma AddMaterialToNode_clamped:
  "level (AddMaterialToNode amount nr) = min (level nr + amount) (hit_level nr) \<and>
   level (AddMaterialToNode amount nr) \<le> hit_level nr \<and>
   massremainder (AddMaterialToNode amount nr)
     = massremainder nr + (amount - (level (AddMaterialToNode amount nr) - level nr)) \<and>
   level_initial (AddMaterialToNode amount nr) - level_initial nr
     = level (AddMaterialToNode amount nr) - level nr"
  by (simp add: AddMaterialToNode_def Let_def min_def)

text \<open>
  \<open>RemoveMaterialFromNode\<close> on a node whose remainder is positive and smaller than the
  amount drains the remainder first: the level is lowered by the rest of the amount.
\<close>

lemma RemoveMaterialFromNode_drains_first:
  "0 < massremainder nr \<Longrightarrow> massremainder nr < amount \<Longrightarrow>
   massremainder (RemoveMaterialFromNode amount nr) = 0 \<and>
   level (RemoveMaterialFromNode amount nr) = level nr - (amount - massremainder nr) \<and>
   level_initial (RemoveMaterialFromNode amount nr)
     = level_initial nr - (amount - massremainder nr)"
  by (simp add: RemoveMaterialFromNode_def Let_def)

text \<open>
  Claim C4 asks \<open>RemoveMaterialFromNode\<close> to drain \<open>massremainder\<close> before it lowers the
  level, so that the level is lowered only by the part of the amount that the remainder
  does not cover. The branch for a remainder below the amount does so; the branch for a
  remainder above the amount lowers the remainder and then lowers the level by the whole
  amount as well (the statement that resets the amount is commented out), and a
  remainder equal to the amount is left as it is while the level is lowered by the
  whole amount. On a node at level 0 with remainder 3: removing 1 leaves remainder 2 and
  level \<open>-1\<close>, removing 3 leaves remainder 3 and level \<open>-3\<close>, where the claim has level 0
  in both cases; removing 4 leaves remainder 0 and level \<open>-1\<close>, as the claim has it.
\<close>

theorem RemoveMaterialFromNode_covered_amount:
  "level heaped_node = 0 \<and> massremainder heaped_node = 3 \<and>
   massremainder (RemoveMaterialFromNode 1 heaped_node) = 2 \<and>
   level (RemoveMaterialFromNode 1 heaped_node) = - 1 \<and>
   level heaped_node - (1 - min 1 (massremainder heaped_node)) = 0 \<and>
   massremainder (RemoveMaterialFromNode 3 heaped_node) = 3 \<and>
   level (RemoveMaterialFromNode 3 heaped_node) = - 3 \<and>
   level heaped_node - (3 - min 3 (massremainder heaped_node)) = 0 \<and>
   massremainder (RemoveMaterialFromNode 4 heaped_node) = 0 \<and>
   level (RemoveMaterialFromNode 4 heaped_node) = - 1 \<and>
   level heaped_node - (4 - min 4 (massremainder heaped_node)) = - 1"
  by (simp add: heaped_node_def RemoveMaterialFromNode_def NodeRecord_new_def Let_def)

subsection \<open>Shape factor of a contact patch\<close>

lemma patch_geometry_fields:
  "points (patch_geometry E p) = points p \<and> nodes (patch_geometry E p) = nodes p \<and>
   area (patch_geometry E p) = GetArea (ConvexHull2D E (points p)) \<and>
   perimeter (patch_geometry E p) = GetPerimeter (ConvexHull2D E (points p)) \<and>
   oob (patch_geometry E p) =
     (if GetArea (ConvexHull2D E (points p)) < 1 / 1000000 then 0
      else GetPerimeter (ConvexHull2D E (points p)) / (2 * GetArea (ConvexHull2D E (points p))))"
  by (simp add: patch_geometry_def Let_def)

text \<open>
  Claim C9, as stated, fails at a hull area of exactly \<open>10\<^sup>-\<^sup>6\<close>: the area does not exceed
  \<open>10\<^sup>-\<^sup>6\<close>, and the shape factor is \<open>perimeter / (2 area) = 2000\<close>, not 0.
\<close>

theorem oob_at_threshold_counterexample:
  "\<not> area (patch_geometry unit_square_hull square_patch) > 1 / 1000000 \<and>
   oob (patch_geometry unit_square_hull square_patch) = 2000 \<and>
   oob (patch_geometry unit_square_hull square_patch)
     \<noteq> (if area (patch_geometry unit_square_hull square_patch) > 1 / 1000000
         then perimeter (patch_geometry unit_square_hull square_patch)
              / (2 * area (patch_geometry unit_square_hull square_patch))
         else 0)"
  by (simp add: patch_geometry_def unit_square_hull_def no_collider_def square_patch_def Let_def)

text \<open>
  Claim C9, amended. For every contact patch computed in a step, \<open>area\<close> and \<open>perimeter\<close>
  are those of the 2D convex hull of the points of the patch, and the shape factor is
  \<open>0\<close> when the area is below \<open>10\<^sup>-\<^sup>6\<close> and \<open>perimeter / (2 area)\<close> otherwise, also at an
  area of exactly \<open>10\<^sup>-\<^sup>6\<close>.
\<close>

theorem patch_shape_factor:
  assumes "find_contact_patches E delta hits = Some (hits1, contact_patches)"
    and "p \<in> set contact_patches"
  shows "area p = GetArea (ConvexHull2D E (points p)) \<and>
         perimeter p = GetPerimeter (ConvexHull2D E (points p)) \<and>
         oob p = (if area p < 1 / 1000000 then 0 else perimeter p / (2 * area p))"
proof -
  from assms obtain q where "p = patch_geometry E q"
    by (auto simp: find_contact_patches_def split: option.splits)
  then show ?thesis by (simp add: patch_geometry_fields)
qed


theorem patch_shape_factor_witness:
  "find_contact_patches no_collider (1 / 1000) two_hits
     = Some ([((0, 0), \<lparr>contactable = plate 0, abs_point = ChVector3d 0 0 0, patch_id = 0\<rparr>),
              ((1, 0), \<lparr>contactable = plate 0, abs_point = ChVector3d 1 0 0, patch_id = 0\<rparr>)],
             [\<lparr> points = [(0, 0), (1 / 1000, 0)], nodes = [(0, 0), (1, 0)],
                area = 0, perimeter = 0, oob = 0 \<rparr>]) \<and>
   GetArea (ConvexHull2D no_collider [(0, 0), (1 / 1000, 0)]) = 0 \<and>
   oob \<lparr> points = [(0, 0), (1 / 1000, 0)], nodes = [(0 :: int, 0 :: int), (1, 0)],
         area = 0, perimeter = 0, oob = 0 \<rparr> = 0"
proof -
  have f: "find_contact_patches no_collider (1 / 1000) two_hits
     = Some ([((0, 0), \<lparr>contactable = plate 0, abs_point = ChVector3d 0 0 0, patch_id = 0\<rparr>),
              ((1, 0), \<lparr>contactable = plate 0, abs_point = ChVector3d 1 0 0, patch_id = 0\<rparr>)],
             [\<lparr> points = [(0, 0), (1 / 1000, 0)], nodes = [(0, 0), (1, 0)],
                area = 0, perimeter = 0, oob = 0 \<rparr>])"
    by (simp add: find_contact_patches_def two_hits_def seed_patch_def flood_visit_def
        neighbors4_def cell_add_def Let_def patch_geometry_def no_collider_def)
  from patch_shape_factor [OF f,
      of "\<lparr> points = [(0, 0), (1 / 1000, 0)], nodes = [(0, 0), (1, 0)],
            area = 0, perimeter = 0, oob = 0 \<rparr>"] f
  show ?thesis by (simp add: no_collider_def)
qed

subsection \<open>Normal pressure\<close>

text \<open>
  Claim C1 asks for a normal pressure \<open>sigma\<close> that is never negative at the end of a
  step. The code clamps the elastic try, but the damping term \<open>- Vn * damping_R\<close> is added
  afterwards whatever the sign of \<open>Vn\<close>. On the small terrain with damping 1, a plate
  that has sunk \<open>1/4\<close> into the soil and rises with speed 1 gets the Bekker pressure
  \<open>1/2\<close> and then the damping term \<open>-1\<close>: the step ends with \<open>sigma = -1/2\<close> at the
  node \<open>(0, 0)\<close>.
\<close>

theorem sigma_negative_after_damping:
  "map_option (\<lambda>s. map_option sigma (map_of (m_grid_map s) (0, 0)))
     (ComputeInternalForces (plate_over_origin (- 1 / 4) 1) (small_terrain 1))
   = Some (Some (- 1 / 2))"
  by (simp add: step_eval)

subsection \<open>Decomposition of the sinkage\<close>

text \<open>
  Claim C2, as stated, fails for a node that was modified in a step and is not touched in
  the next one: the reset at the start of the next step sets \<open>sinkage_elastic\<close> to 0 and
  keeps \<open>sinkage\<close> and \<open>sinkage_plastic\<close>. A plate sinks \<open>1/4\<close> into the small terrain in
  one step and is gone in the next step; at the end of that step the node \<open>(0, 0)\<close> has
  \<open>sinkage = 1/4\<close>, \<open>sinkage_elastic = 0\<close> and \<open>sinkage_plastic = 1/8\<close>.
\<close>

theorem untouched_node_counterexample:
  "case ComputeInternalForces (plate_over_origin (- 1 / 4) 0) (small_terrain 0) of
     None \<Rightarrow> False
   | Some s1 \<Rightarrow>
       (case ComputeInternalForces no_collider s1 of
          None \<Rightarrow> False
        | Some s2 \<Rightarrow>
            (case map_of (m_grid_map s2) (0, 0) of
               None \<Rightarrow> False
             | Some nr \<Rightarrow>
                 sinkage nr = 1 / 4 \<and> sinkage_elastic nr = 0 \<and> sinkage_plastic nr = 1 / 8 \<and>
                 sinkage nr \<noteq> sinkage_elastic nr + sinkage_plastic nr))"
  by (simp add: step_eval)

text \<open>
  Claim C2, amended. At the end of every completed step, with or without bulldozing,
  every node that the loop over the hit nodes has marked as modified in this step (a hit
  node whose elastic try is not negative) satisfies
  \<open>sinkage = sinkage_elastic + sinkage_plastic\<close>.
\<close>

theorem touched_nodes_decomposed:
  assumes "ComputeInternalForces E s = Some s'" and "ij \<in> set (touched_nodes E s)"
  shows "\<exists>nr. map_of (m_grid_map s') ij = Some nr \<and>
              sinkage nr = sinkage_elastic nr + sinkage_plastic nr"
proof -
  from assms(1) obtain s1 sp where
    r: "reset_step s = Some s1"
    and c: "contact_forces E (ray_casting E s1) = Some sp"
    and b: "bulldozing E (snd sp) (fst sp) = Some s'"
    by (auto simp: ComputeInternalForces_def split: option.splits)
  from r have "m_modified_nodes (fst (ray_casting E s1)) = []"
    by (simp add: reset_step_modified)
  from contact_forces_decomposed [OF c this] assms(2) r c
  obtain nr where nr: "map_of (m_grid_map (fst sp)) ij = Some nr" "decomposed nr"
    by (auto simp: touched_nodes_def modified_decomposed_def)
  from bulldozing_kept [OF b] nr(1)
  obtain nr' where "map_of (m_grid_map s') ij = Some nr'" "soil_state_kept nr nr'"
    unfolding evolves_def grid_rel_def by blast
  with nr(2) show ?thesis by (auto simp: decomposed_def soil_state_kept_def)
qed


theorem touched_nodes_decomposed_witness:
  "(0, 0) \<in> set (touched_nodes (plate_over_origin (- 1 / 4) 0) (small_terrain 0)) \<and>
   (case ComputeInternalForces (plate_over_origin (- 1 / 4) 0) (small_terrain 0) of
      None \<Rightarrow> False
    | Some s \<Rightarrow>
        (case map_of (m_grid_map s) (0, 0) of
           None \<Rightarrow> False
         | Some nr \<Rightarrow> sinkage nr = sinkage_elastic nr + sinkage_plastic nr))"
proof -
  have t: "(0, 0) \<in> set (touched_nodes (plate_over_origin (- 1 / 4) 0) (small_terrain 0))"
    by (simp add: touched_nodes_def step_eval)
  have "ComputeInternalForces (plate_over_origin (- 1 / 4) 0) (small_terrain 0) \<noteq> None"
    by (simp add: step_eval)
  then obtain s where
    s: "ComputeInternalForces (plate_over_origin (- 1 / 4) 0) (small_terrain 0) = Some s"
    by blast
  from touched_nodes_decomposed [OF s t] s t show ?thesis by auto
qed

subsection \<open>Yield pressure\<close>

text \<open>
  Claim C3, as stated, fails when the soil parameters change between two steps. A plate
  sinks \<open>1/4\<close> into the small terrain (\<open>Kphi = 2\<close>) and the plastic return sets
  \<open>sigma_yield = 1/2\<close>; then \<open>Kphi\<close> is set to \<open>1/2\<close> and the plate sinks to \<open>1/2\<close>: the
  elastic try \<open>3/2\<close> exceeds the yield pressure, and the plastic return sets
  \<open>sigma_yield\<close> to the Bekker pressure \<open>1/4\<close>, below the previous \<open>1/2\<close>.
\<close>

theorem yield_drops_counterexample:
  "case ComputeInternalForces (plate_over_origin (- 1 / 4) 0) (small_terrain 0) of
     None \<Rightarrow> False
   | Some s1 \<Rightarrow>
       (case ComputeInternalForces (plate_over_origin (- 1 / 2) 0)
               (SetSoilParameters (1 / 2) 0 1 0 0 1 4 0 s1) of
          None \<Rightarrow> False
        | Some s2 \<Rightarrow>
            (case (map_of (m_grid_map s1) (0, 0), map_of (m_grid_map s2) (0, 0)) of
               (Some nr1, Some nr2) \<Rightarrow>
                 sigma_yield nr1 = 1 / 2 \<and> sigma_yield nr2 = 1 / 4 \<and>
                 sigma_yield nr2 < sigma_yield nr1
             | _ \<Rightarrow> False))"
  by (simp add: step_eval)

text \<open>
  Claim C3, amended. On a terrain that starts with an empty grid, without soil callback,
  with \<open>Kc = 0\<close> (so that the shape factor of the patch has no effect), \<open>Kphi \<ge> 0\<close>,
  elastic stiffness \<open>K > 0\<close> and a power function that is non-negative and monotone on
  the positive reals, and whose parameters are not changed between the steps, no step
  lowers the yield pressure of a node: every node of the grid before a step is a node
  after the step, with a \<open>sigma_yield\<close> that is not smaller.
\<close>

theorem sigma_yield_monotone:
  assumes fresh: "m_grid_map s = []"
    and params: "m_soil_fun s = None" "m_Bekker_Kc s = 0" "0 \<le> m_Bekker_Kphi s"
      "0 < m_elastic_K s"
    and pow: "\<forall>E' \<in> set (E # Es). std_pow E' = pw"
    and mono: "\<forall>x y. 0 < x \<and> x \<le> y \<longrightarrow> pw x (m_Bekker_n s) \<le> pw y (m_Bekker_n s)"
    and nonneg: "\<forall>x. 0 < x \<longrightarrow> 0 \<le> pw x (m_Bekker_n s)"
    and run: "fold_opt ComputeInternalForces Es s = Some sk"
    and step: "ComputeInternalForces E sk = Some s'"
    and node: "map_of (m_grid_map sk) ij = Some nr"
  shows "\<exists>nr'. map_of (m_grid_map s') ij = Some nr' \<and> sigma_yield nr \<le> sigma_yield nr'"
proof -
  have soil: "hardening_soil pw s"
    using params mono nonneg by (simp add: hardening_soil_def)
  have inv: "config sk = config s \<and> all_hardened pw sk"
  proof (rule fold_opt_invariant [OF run, where P = "\<lambda>a. config a = config s \<and> all_hardened pw a"])
    show "config s = config s \<and> all_hardened pw s"
      by (simp add: all_hardened_def fresh)
  next
    fix E' a b
    assume E': "E' \<in> set Es" and a: "config a = config s \<and> all_hardened pw a"
      and ab: "ComputeInternalForces E' a = Some b"
    from E' pow have p: "std_pow E' = pw" by simp
    from a have ca: "config a = config s" by simp
    from soil have "hardening_soil (std_pow E') a" by (simp add: p hardening_soil_config [OF ca])
    from step_all_hardened [OF ab this] a config_step [OF ab]
    show "config b = config s \<and> all_hardened pw b" by (simp add: p)
  qed
  from pow have p: "std_pow E = pw" by simp
  from inv have csk: "config sk = config s" by simp
  from soil have sk: "hardening_soil (std_pow E) sk" by (simp add: p hardening_soil_config [OF csk])
  from step_hardens [OF step sk] node obtain nr' where
    n': "map_of (m_grid_map s') ij = Some nr'" and h: "hardens_in (std_pow E) sk nr nr'"
    unfolding evolves_def grid_rel_def by blast
  from inv node have "yield_hardened (std_pow E) (m_Bekker_Kphi sk) (m_Bekker_n sk) (m_elastic_K sk) nr"
    unfolding all_hardened_def p by blast
  with h n' show ?thesis by (auto simp: hardens_def)
qed

theorem sigma_yield_monotone_witness:
  "case ComputeInternalForces (plate_over_origin (- 1 / 4) 0) (small_terrain 0) of
     None \<Rightarrow> False
   | Some sk \<Rightarrow>
       (case ComputeInternalForces (plate_over_origin (- 1 / 2) 0) sk of
          None \<Rightarrow> False
        | Some s' \<Rightarrow>
            (case (map_of (m_grid_map sk) (0, 0), map_of (m_grid_map s') (0, 0)) of
               (Some nr, Some nr') \<Rightarrow> sigma_yield nr \<le> sigma_yield nr'
             | _ \<Rightarrow> False))"
proof -
  let ?E1 = "plate_over_origin (- 1 / 4) 0" and ?E2 = "plate_over_origin (- 1 / 2) 0"
  let ?s = "small_terrain 0"
  have "\<exists>sk. ComputeInternalForces ?E1 ?s = Some sk \<and> map_of (m_grid_map sk) (0, 0) \<noteq> None
             \<and> ComputeInternalForces ?E2 sk \<noteq> None"
    by (simp add: step_eval)
  then obtain sk nr s' where
    sk: "ComputeInternalForces ?E1 ?s = Some sk"
    and nr: "map_of (m_grid_map sk) (0, 0) = Some nr"
    and s': "ComputeInternalForces ?E2 sk = Some s'"
    by blast
  have run: "fold_opt ComputeInternalForces [?E1] ?s = Some sk"
    using sk by simp
  have par: "m_grid_map ?s = []" "m_soil_fun ?s = None" "m_Bekker_Kc ?s = 0"
    "0 \<le> m_Bekker_Kphi ?s" "0 < m_elastic_K ?s" "m_Bekker_n ?s = 1"
    by (simp_all add: small_terrain_def Initialize_flat_def SetSoilParameters_def
        SCMLoaderOld_new_def Let_def)
  have pw: "\<forall>E' \<in> set [?E2, ?E1]. std_pow E' = (powr)"
    by (simp add: plate_over_origin_def no_collider_def)
  have mono: "\<forall>x y :: real. 0 < x \<and> x \<le> y \<longrightarrow> x powr (m_Bekker_n ?s) \<le> y powr (m_Bekker_n ?s)"
    and nonneg: "\<forall>x :: real. 0 < x \<longrightarrow> 0 \<le> x powr (m_Bekker_n ?s)"
    by (simp_all add: par(6))
  from sigma_yield_monotone [OF par(1-5) pw mono nonneg run s' nr]
  obtain nr' where "map_of (m_grid_map s') (0, 0) = Some nr'" "sigma_yield nr \<le> sigma_yield nr'"
    by blast
  with sk nr s' show ?thesis by simp
qed

subsection \<open>Checkpoint round trip\<close>

text \<open>
  Claim C6. Let \<open>nodes_list\<close> be the result of \<open>GetModifiedNodes(true)\<close> on a loader
  whose grid map has distinct keys. For every node of that grid, with record \<open>nr\<close>, the
  list reports \<open>level nr\<close>, and after \<open>SetModifiedNodes(nodes_list)\<close> on an instance \<open>f\<close>
  the record of the node has \<open>level\<close> and \<open>level_initial\<close> equal to \<open>level nr\<close>, the
  normal of the base height field of \<open>f\<close>, and the values of the constructor in all other
  fields; \<open>GetHeight\<close> at the node returns \<open>level nr\<close>. When \<open>f\<close> is fresh (its grid map is
  empty), the nodes of the restored grid are exactly the reported nodes.
\<close>

theorem checkpoint_round_trip:
  assumes "distinct (map fst (m_grid_map s))"
    and "GetModifiedNodes True s = Some nodes_list"
    and "map_of (m_grid_map s) ij = Some nr"
  shows "map_of (m_grid_map (SetModifiedNodes E nodes_list f)) ij
           = Some \<lparr> level_initial = level nr, level = level nr, hit_level = 1000000000,
                    normal = GetInitNormal E f ij, sinkage = 0, sinkage_plastic = 0,
                    sinkage_elastic = 0, sigma = 0, sigma_yield = 0, kshear = 0, tau = 0,
                    erosion = False, massremainder = 0, step_plastic_flow = 0 \<rparr>
       \<and> GetHeight (SetModifiedNodes E nodes_list f) ij = level nr
       \<and> (ij, level nr) \<in> set nodes_list
       \<and> (m_grid_map f = [] \<longrightarrow>
            fst ` set (m_grid_map (SetModifiedNodes E nodes_list f)) = fst ` set (m_grid_map s))"
proof -
  from assms(2) have nl: "nodes_list = map (\<lambda>nr. (fst nr, level (snd nr))) (m_grid_map s)"
    by (simp add: GetModifiedNodes_def)
  then have keys: "map fst nodes_list = map fst (m_grid_map s)" by (simp add: comp_def)
  from assms(3) have "(ij, nr) \<in> set (m_grid_map s)" by (rule map_of_SomeD)
  then have mem: "(ij, level nr) \<in> set nodes_list" by (force simp: nl)
  from keys assms(1) have d: "distinct (map fst nodes_list)" by simp
  note f = SetModifiedNodes_fold [of E nodes_list f]
  from fold_update_member [OF d mem,
      where F = "\<lambda>n. NodeRecord_new (snd n) (snd n) (GetInitNormal E f (fst n))"]
  have look: "map_of (m_grid_map (SetModifiedNodes E nodes_list f)) ij
               = Some (NodeRecord_new (level nr) (level nr) (GetInitNormal E f ij))"
    by (simp add: f)
  have "fst ` set (m_grid_map (SetModifiedNodes E nodes_list f))
          = fst ` set (m_grid_map f) \<union> fst ` set (m_grid_map s)"
    using keys by (simp add: f fold_update_keys) (metis list.set_map)
  with look mem show ?thesis
    by (simp add: GetHeight_def NodeRecord_new_def)
qed

theorem checkpoint_round_trip_witness:
  "case ComputeInternalForces (plate_over_origin (- 1 / 4) 0) (small_terrain 0) of
     None \<Rightarrow> False
   | Some s \<Rightarrow>
       (case GetModifiedNodes True s of
          None \<Rightarrow> False
        | Some nodes_list \<Rightarrow>
            GetHeight s (0, 0) = - 1 / 4 \<and>
            GetHeight (SetModifiedNodes no_collider nodes_list (small_terrain 0)) (0, 0) = - 1 / 4)"
proof -
  have "\<exists>s. ComputeInternalForces (plate_over_origin (- 1 / 4) 0) (small_terrain 0) = Some s \<and>
            distinct (map fst (m_grid_map s)) \<and>
            (\<exists>nr. map_of (m_grid_map s) (0, 0) = Some nr \<and> level nr = - 1 / 4)"
    by (simp add: step_eval)
  then obtain s nr where
    s: "ComputeInternalForces (plate_over_origin (- 1 / 4) 0) (small_terrain 0) = Some s"
    and d: "distinct (map fst (m_grid_map s))"
    and nr: "map_of (m_grid_map s) (0, 0) = Some nr" "level nr = - 1 / 4"
    by blast
  obtain nodes_list where nl: "GetModifiedNodes True s = Some nodes_list"
    by (simp add: GetModifiedNodes_def)
  from checkpoint_round_trip [OF d nl nr(1), of no_collider "small_terrain 0"] nr
  have "GetHeight (SetModifiedNodes no_collider nodes_list (small_terrain 0)) (0, 0) = - 1 / 4"
    by simp
  moreover have "GetHeight s (0, 0) = - 1 / 4"
    using nr by (simp add: GetHeight_def)
  ultimately show ?thesis using s nl by simp
qed

subsection \<open>Modified nodes and ray hits\<close>

text \<open>
  Claim C5, as stated, fails for a hit whose elastic-trial pressure is exactly zero: the
  code skips a hit node only when the trial pressure is negative. A plate that touches
  the small terrain at height 0, without bulldozing, gives one ray hit with trial
  pressure 0; the step marks one node as modified, while no hit has a positive trial
  pressure.
\<close>

theorem zero_trial_counterexample:
  "case ComputeInternalForces (plate_over_origin 0 0) (small_terrain 0) of
     None \<Rightarrow> False
   | Some s' \<Rightarrow>
       \<not> m_bulldozing (small_terrain 0) \<and>
       map (trial_pressure (fst (ray_cast_result (plate_over_origin 0 0) (small_terrain 0))))
           (snd (ray_cast_result (plate_over_origin 0 0) (small_terrain 0))) = [Some 0] \<and>
       length (m_modified_nodes s') = 1 \<and>
       length (filter (\<lambda>h. case trial_pressure
                                  (fst (ray_cast_result (plate_over_origin 0 0) (small_terrain 0))) h of
                             None \<Rightarrow> False | Some p \<Rightarrow> 0 < p)
                 (snd (ray_cast_result (plate_over_origin 0 0) (small_terrain 0)))) = 0"
  by (simp add: step_eval ray_cast_result_def trial_pressure_def)

text \<open>
  Claim C5, amended. With bulldozing disabled, the nodes marked as modified in a
  completed step are the nodes of the ray hits whose elastic-trial pressure is not
  negative (zero included), so their number is the number of these hits. A hit node whose
  trial pressure is negative is not marked as modified and ends the step with
  \<open>sigma = 0\<close>; the body of the loop changes nothing but the \<open>hit_level\<close> and the \<open>sigma\<close>
  of its node record, so it adds no force and no load.
\<close>

theorem modified_nodes_are_nonnegative_hits:
  assumes step: "ComputeInternalForces E s = Some s'" and nb: "\<not> m_bulldozing s"
  shows "m_modified_nodes s'
           = map fst (filter (nonneg_trial (fst (ray_cast_result E s))) (snd (ray_cast_result E s)))
       \<and> length (m_modified_nodes s')
           = length (filter (nonneg_trial (fst (ray_cast_result E s))) (snd (ray_cast_result E s)))
       \<and> (\<forall>h \<in> set (snd (ray_cast_result E s)).
            negative_trial (fst (ray_cast_result E s)) h \<longrightarrow>
              fst h \<notin> set (m_modified_nodes s') \<and>
              (\<exists>nr. map_of (m_grid_map s') (fst h) = Some nr \<and> sigma nr = 0))
       \<and> (\<forall>contact_patches h a nr.
            map_of (m_grid_map a) (fst h) = Some nr \<and> negative_trial a h \<longrightarrow>
              process_hit E contact_patches h a
                = Some (a\<lparr>m_grid_map := AList.update (fst h)
                      (nr\<lparr>hit_level := vz (TransformPointParentToLocal (m_frame a) (abs_point (snd h))),
                          sigma := 0\<rparr>)
                      (m_grid_map a)\<rparr>))"
proof -
  from step obtain s1 sp where
    r: "reset_step s = Some s1"
    and c: "contact_forces E (ray_casting E s1) = Some sp"
    and b: "bulldozing E (snd sp) (fst sp) = Some s'"
    by (auto simp: ComputeInternalForces_def split: option.splits)
  let ?sr = "fst (ray_casting E s1)" and ?hits = "snd (ray_casting E s1)"
  have rc: "ray_cast_result E s = ray_casting E s1" by (simp add: ray_cast_result_def r)
  from c obtain hp s4 where
    fp: "find_contact_patches E (m_delta ?sr) ?hits = Some hp"
    and loop: "fold_opt (process_hit E (snd hp)) (fst hp)
                 (?sr\<lparr>m_num_contact_patches := int (length (snd hp))\<rparr>) = Some s4"
    and sp: "sp = (create_loads s4, snd hp)"
    by (auto simp: contact_forces_def Let_def split: option.splits)
  let ?s3 = "?sr\<lparr>m_num_contact_patches := int (length (snd hp))\<rparr>"
  note kp = find_contact_patches_key_point [OF fp]
  have "map fst (map hit_key_point (fst hp)) = map fst (map hit_key_point ?hits)"
    by (simp only: kp)
  then have keys: "map fst (fst hp) = map fst ?hits"
    by (simp add: hit_key_point_def comp_def)
  have dh: "distinct (map fst ?hits)" by (rule distinct_ray_casting_hits)
  with keys have d: "distinct (map fst (fst hp))" by simp
  note eff = contact_loop_effect [OF d loop]
  have tp: "trial_pressure ?s3 h = trial_pressure ?sr h" for h
  proof (rule trial_pressure_same)
    show "config ?s3 = config ?sr" by (rule config_updates)
    show "map_of (m_grid_map ?s3) (fst h) = map_of (m_grid_map ?sr) (fst h)" by simp
  qed
  have nn: "nonneg_trial ?s3 = nonneg_trial ?sr" and ng: "negative_trial ?s3 = negative_trial ?sr"
  proof -
    show "nonneg_trial ?s3 = nonneg_trial ?sr"
    proof
      fix h show "nonneg_trial ?s3 h = nonneg_trial ?sr h"
        unfolding nonneg_trial_def by (simp only: tp)
    qed
    show "negative_trial ?s3 = negative_trial ?sr"
    proof
      fix h show "negative_trial ?s3 h = negative_trial ?sr h"
        unfolding negative_trial_def by (simp only: tp)
    qed
  qed
  have m0: "m_modified_nodes ?s3 = []"
    using reset_step_modified [OF r] by simp
  have flt: "map fst (filter (nonneg_trial ?sr) (fst hp)) = map fst (filter (nonneg_trial ?sr) ?hits)"
  proof (rule filter_key_point [OF kp])
    fix a b :: "ChVector2i \<times> HitRecord"
    assume "hit_key_point a = hit_key_point b"
    from trial_pressure_key_point [OF this, of ?sr]
    show "nonneg_trial ?sr a = nonneg_trial ?sr b" by (simp only: nonneg_trial_def)
  qed
  have m4: "m_modified_nodes s4 = map fst (filter (nonneg_trial ?sr) ?hits)"
    using eff m0 by (simp add: nn flt)
  have "config (fst sp) = config s"
    using config_contact_forces [OF c] config_reset_step [OF r] by simp
  from config_fields(6) [OF this] nb have "\<not> m_bulldozing (fst sp)" by simp
  from bulldozing_disabled [OF this, of E "snd sp"] b
  have s': "s' = (create_loads s4)\<lparr>m_num_erosion_nodes := 0\<rparr>"
    by (simp add: sp)
  have 1: "m_modified_nodes s' = map fst (filter (nonneg_trial ?sr) ?hits)"
    by (simp add: s' m4)
  have 3: "\<forall>h \<in> set ?hits. negative_trial ?sr h \<longrightarrow>
              fst h \<notin> set (m_modified_nodes s') \<and>
              (\<exists>nr. map_of (m_grid_map s') (fst h) = Some nr \<and> sigma nr = 0)"
  proof (intro ballI impI)
    fix h
    assume h: "h \<in> set ?hits" and neg: "negative_trial ?sr h"
    from h have "hit_key_point h \<in> set (map hit_key_point (fst hp))" by (simp add: kp)
    then obtain h1 where h1: "h1 \<in> set (fst hp)" "hit_key_point h1 = hit_key_point h" by auto
    from trial_pressure_key_point [OF h1(2), of ?sr] neg have "negative_trial ?s3 h1"
      by (simp only: ng negative_trial_def)
    with eff h1(1) obtain nr where "map_of (m_grid_map s4) (fst h1) = Some nr" "sigma nr = 0"
      by blast
    moreover from h1(2) have "fst h1 = fst h" by (simp add: hit_key_point_def)
    ultimately have a: "\<exists>nr. map_of (m_grid_map s') (fst h) = Some nr \<and> sigma nr = 0"
      by (simp add: s')
    have "fst h \<notin> set (m_modified_nodes s')"
    proof
      assume "fst h \<in> set (m_modified_nodes s')"
      then obtain h2 where h2: "h2 \<in> set ?hits" "nonneg_trial ?sr h2" "fst h2 = fst h"
        unfolding 1 by auto
      have "(fst h, snd h) \<in> set ?hits" using h by simp
      moreover have "(fst h2, snd h2) \<in> set ?hits" using h2(1) by simp
      then have "(fst h, snd h2) \<in> set ?hits" by (simp only: h2(3))
      ultimately have "(fst h, snd h) \<in> set ?hits" "(fst h, snd h2) \<in> set ?hits"
        by blast+
      from eq_key_imp_eq_value [OF dh this] h2(3) have "h2 = h"
        by (simp add: prod_eq_iff)
      with h2(2) neg show False
        by (simp add: nonneg_trial_def negative_trial_def split: option.splits)
    qed
    with a show "fst h \<notin> set (m_modified_nodes s') \<and>
                 (\<exists>nr. map_of (m_grid_map s') (fst h) = Some nr \<and> sigma nr = 0)"
      by (intro conjI)
  qed
  have 2: "length (m_modified_nodes s') = length (filter (nonneg_trial ?sr) ?hits)"
    by (simp add: 1)
  have 4: "\<forall>contact_patches h a nr.
            map_of (m_grid_map a) (fst h) = Some nr \<and> negative_trial a h \<longrightarrow>
              process_hit E contact_patches h a
                = Some (a\<lparr>m_grid_map := AList.update (fst h)
                      (nr\<lparr>hit_level := vz (TransformPointParentToLocal (m_frame a) (abs_point (snd h))),
                          sigma := 0\<rparr>)
                      (m_grid_map a)\<rparr>)"
    by (intro allI impI, elim conjE) (rule clamped_hit)
  show ?thesis
    unfolding rc by (intro conjI) (rule 1, rule 2, rule 3, rule 4)
qed

theorem modified_nodes_are_nonnegative_hits_witness:
  "(case ComputeInternalForces (plate_over_origin (- 1 / 4) 0) (small_terrain 0) of
      None \<Rightarrow> False
    | Some s' \<Rightarrow> m_modified_nodes s' = [(0, 0)] \<and> length (m_modified_nodes s') = 1) \<and>
   (case ComputeInternalForces (plate_over_origin (1 / 20) 0) (small_terrain 0) of
      None \<Rightarrow> False
    | Some s' \<Rightarrow>
        (0, 0) \<notin> set (m_modified_nodes s') \<and>
        (case map_of (m_grid_map s') (0, 0) of None \<Rightarrow> False | Some nr \<Rightarrow> sigma nr = 0))"
proof -
  let ?s = "small_terrain 0"
  let ?E1 = "plate_over_origin (- 1 / 4) 0" and ?E2 = "plate_over_origin (1 / 20) 0"
  let ?h = "((0, 0), \<lparr>contactable = plate 0, abs_point = ChVector3d 0 0 (1 / 20), patch_id = - 1\<rparr>)"
  have nb: "\<not> m_bulldozing ?s"
    by (simp add: small_terrain_def Initialize_flat_def SetSoilParameters_def
        SCMLoaderOld_new_def Let_def)
  have "ComputeInternalForces ?E1 ?s \<noteq> None" "ComputeInternalForces ?E2 ?s \<noteq> None"
    by (simp_all add: step_eval)
  then obtain s1 s2 where
    s1: "ComputeInternalForces ?E1 ?s = Some s1" and s2: "ComputeInternalForces ?E2 ?s = Some s2"
    by blast
  have f1: "map fst (filter (nonneg_trial (fst (ray_cast_result ?E1 ?s))) (snd (ray_cast_result ?E1 ?s)))
              = [(0, 0)]"
    by (simp add: step_eval ray_cast_result_def nonneg_trial_def trial_pressure_def)
  have h2: "?h \<in> set (snd (ray_cast_result ?E2 ?s))"
    and n2: "negative_trial (fst (ray_cast_result ?E2 ?s)) ?h"
    by (simp_all add: step_eval ray_cast_result_def negative_trial_def trial_pressure_def)
  note t1 = modified_nodes_are_nonnegative_hits [OF s1 nb]
  note t2 = modified_nodes_are_nonnegative_hits [OF s2 nb]
  from t1 f1 have a: "m_modified_nodes s1 = [(0, 0)]" by simp
  from t2 [THEN conjunct2, THEN conjunct2, THEN conjunct1, rule_format, OF h2 n2]
  have b: "(0, 0) \<notin> set (m_modified_nodes s2)"
    and c: "\<exists>nr. map_of (m_grid_map s2) (0, 0) = Some nr \<and> sigma nr = 0"
    by simp_all
  from a b c s1 s2 show ?thesis by auto
qed

end
